theory Spec2Isabelle
  imports Main
begin

section \<open>Runtime values: strings, dates, enumerations, errors\<close>

text \<open>
  A string is a list of code units; a \<open>char\<close> holds the code units below 256, which is
  the part of the strings that is modelled. \<open>String.prototype.trim\<close> strips the white
  space and line terminators of the language from both ends; of those, the ones below 256
  are TAB, LF, VT, FF, CR, SPACE and NBSP. \<open>toLowerCase\<close> maps the capital letters of
  that range (A to Z, and U+00C0 to U+00DE without the multiplication sign) to the small
  ones, 32 further on.
\<close>

definition isWhiteSpace :: "char \<Rightarrow> bool" where
  "isWhiteSpace c =
     (c \<in> set [CHR 0x09, CHR 0x0A, CHR 0x0B, CHR 0x0C, CHR 0x0D, CHR 0x20, CHR 0xA0])"

definition trim :: "string \<Rightarrow> string" where
  "trim s = rev (dropWhile isWhiteSpace (rev (dropWhile isWhiteSpace s)))"

definition toLowerCase_char :: "char \<Rightarrow> char" where
  "toLowerCase_char c =
     (let n = (of_char c :: nat)
      in if (65 \<le> n \<and> n \<le> 90) \<or> (192 \<le> n \<and> n \<le> 222 \<and> n \<noteq> 215)
         then char_of (n + 32) else c)"

definition toLowerCase :: "string \<Rightarrow> string" where
  "toLowerCase s = map toLowerCase_char s"

text \<open>\<open>xs.join(sep)\<close>.\<close>

fun join :: "string \<Rightarrow> string list \<Rightarrow> string" where
  "join sep [] = []"
| "join sep [x] = x"
| "join sep (x # y # ys) = x @ sep @ join sep (y # ys)"

text \<open>
  \<open>[...new Set(xs)]\<close>: a \<open>Set\<close> keeps the first occurrence of every element, in
  insertion order.
\<close>

definition Set_add :: "'a list \<Rightarrow> 'a \<Rightarrow> 'a list" where
  "Set_add acc x = (if x \<in> set acc then acc else acc @ [x])"

definition new_Set :: "'a list \<Rightarrow> 'a list" where
  "new_Set xs = foldl Set_add [] xs"

text \<open>
  A \<open>Date\<close> object holds a time value in milliseconds since the epoch, or \<open>NaN\<close> (an
  invalid date). The relational operators convert both sides to numbers; every comparison
  with \<open>NaN\<close> is false.
\<close>

datatype Date = Time int | Invalid_Date

fun date_lt :: "Date \<Rightarrow> Date \<Rightarrow> bool" where
  "date_lt (Time a) (Time b) = (a < b)"
| "date_lt _ _ = False"

definition date_gt :: "Date \<Rightarrow> Date \<Rightarrow> bool" where
  "date_gt a b = date_lt b a"

fun isNaN_getTime :: "Date \<Rightarrow> bool" where
  "isNaN_getTime (Time a) = False"
| "isNaN_getTime Invalid_Date = True"

text \<open>
  \<open>enum TodoStatus\<close> and \<open>enum TodoPriority\<close> are string enums: at run time their
  members are the strings below, and \<open>Object.values\<close> lists them in declaration order.
\<close>

type_synonym TodoStatus = string
type_synonym TodoPriority = string

definition PENDING :: TodoStatus where "PENDING = ''pending''"
definition COMPLETED :: TodoStatus where "COMPLETED = ''completed''"
definition ARCHIVED :: TodoStatus where "ARCHIVED = ''archived''"

definition LOW :: TodoPriority where "LOW = ''low''"
definition MEDIUM :: TodoPriority where "MEDIUM = ''medium''"
definition HIGH :: TodoPriority where "HIGH = ''high''"
definition CRITICAL :: TodoPriority where "CRITICAL = ''critical''"

definition TodoStatus_values :: "TodoStatus list" where
  "TodoStatus_values = [PENDING, COMPLETED, ARCHIVED]"

definition TodoPriority_values :: "TodoPriority list" where
  "TodoPriority_values = [LOW, MEDIUM, HIGH, CRITICAL]"

text \<open>
  What the code throws: a plain \<open>Error\<close> with its message (the entity constructor; a
  \<open>TypeError\<close> or \<open>SyntaxError\<close> is one too), or a \<open>TodoError\<close> with a code and a
  message (the service). The constructor of \<open>TodoError\<close> also reads the clock, for the
  \<open>timestamp\<close> of the error: the read is part of \<open>throw_TodoError\<close> below, the
  time stamp is not kept in the value.
\<close>

datatype TodoErrorCodes =
  VALIDATION_FAILED | TODO_NOT_FOUND | STORAGE_ERROR | INVALID_DATA
  | PERMISSION_DENIED | NETWORK_ERROR

datatype error = Error string | TodoError TodoErrorCodes string

definition MAX_TEXT_LENGTH :: nat where "MAX_TEXT_LENGTH = 500"

definition LOCAL_STORAGE_KEY :: string where "LOCAL_STORAGE_KEY = ''todos''"
definition BACKUP_KEY :: string where "BACKUP_KEY = ''todos_backup''"
definition CURRENT_VERSION :: string where "CURRENT_VERSION = ''1.0''"

section \<open>The entity\<close>

text \<open>
  \<open>class Todo\<close>. The fields \<open>id\<close> and \<open>text\<close> are written \<open>id'\<close> and \<open>text'\<close>.
  \<open>undefined\<close> is \<open>None\<close>.
\<close>

record Todo =
  id' :: string
  createdAt :: Date
  updatedAt :: Date
  text' :: string
  description :: "string option"
  complete :: bool
  status :: TodoStatus
  priority :: TodoPriority
  dueDate :: "Date option"
  tags :: "string list"

text \<open>
  \<open>interface ITodoData\<close>, the argument of the constructor; its properties carry the
  prefix \<open>d_\<close> here (those of \<open>ITodoUpdate\<close> carry \<open>u_\<close>, those of a parsed JSON
  object \<open>j_\<close>). A property that is absent or \<open>undefined\<close> is \<open>None\<close>. \<open>text\<close> is declared a \<open>string\<close>, but \<open>validateData\<close>
  tests it for being falsy, and the service passes objects read from JSON, so it is optional
  here as well. \<open>status\<close> and \<open>priority\<close> are the strings found at run time, which
  \<open>validateData\<close> compares with the enumerated ones.
\<close>

record ITodoData =
  d_text :: "string option"
  d_description :: "string option"
  d_complete :: "bool option"
  d_status :: "string option"
  d_priority :: "string option"
  d_dueDate :: "Date option"
  d_tags :: "string list option"

record ITodoValidation =
  isValid :: bool
  errors :: "string list"
  warnings :: "string list"

text \<open>
  The plain object that \<open>JSON.stringify\<close> writes for a \<open>Todo\<close> (through \<open>toJSON\<close>) and
  that \<open>JSON.parse\<close> gives back. A date is written as its ISO-8601 string and stands here
  for the \<open>Date\<close> that \<open>new Date\<close> makes of that string; an invalid date is written as
  \<open>null\<close>; a property whose value is \<open>undefined\<close> is left out. \<open>None\<close> is a property
  that is absent or \<open>null\<close>.
\<close>

record TodoJSON =
  j_id :: "string option"
  j_createdAt :: "Date option"
  j_updatedAt :: "Date option"
  j_text :: "string option"
  j_description :: "string option"
  j_complete :: "bool option"
  j_status :: "string option"
  j_priority :: "string option"
  j_dueDate :: "Date option"
  j_tags :: "string list option"
  j_isOverdue :: "bool option"
  j_isPending :: "bool option"
  j_isCompleted :: "bool option"

text \<open>
  A JSON text, by what \<open>JSON.parse\<close> makes of it: a \<open>SyntaxError\<close>; \<open>null\<close>; an array
  of item objects (what the service stores under its key); any other value, with its
  \<open>version\<close> and \<open>timestamp\<close> and with its \<open>todos\<close> property when that is an array
  of item objects (\<open>None\<close> when it is absent, falsy or not an array).
\<close>

datatype json_text =
  Unparseable
  | Json_null
  | Json_array "TodoJSON list"
  | Json_object "string option" "Date option" "TodoJSON list option"

section \<open>The environment\<close>

text \<open>
  What the code reads and writes outside its own objects:
  \<^item> the identifiers that successive calls of \<open>generateId\<close> draw from the platform's random
    source (\<open>uuids\<close>, \<open>uuid_calls\<close> of them drawn so far);
  \<^item> the clock: the time values that successive \<open>new Date()\<close> read (\<open>times\<close>,
    \<open>time_reads\<close> of them read so far);
  \<^item> \<open>localStorage\<close>, and whether the n-th call of \<open>setItem\<close> throws (the quota is
    exceeded);
  \<^item> the two callbacks are code of the caller. Every invocation is recorded with its
    arguments. An invocation may throw: \<open>listChanged_throws n\<close> tells whether the n-th
    invocation of the change listener does, and \<open>operation_throws n\<close> is what the n-th
    invocation of the operation listener throws (\<open>None\<close> when it returns normally),
    counting from 0. A callback touches nothing else of what is modelled here.
\<close>

record World =
  uuids :: "nat \<Rightarrow> string"
  uuid_calls :: nat
  times :: "nat \<Rightarrow> int"
  time_reads :: nat
  localStorage :: "string \<rightharpoonup> json_text"
  setItem_throws :: "nat \<Rightarrow> bool"
  setItem_calls :: nat
  listChanged_calls :: "Todo list list"
  listChanged_throws :: "nat \<Rightarrow> bool"
  operation_calls :: "(Todo \<times> string) list"
  operation_throws :: "nat \<Rightarrow> error option"

definition new_Date :: "World \<Rightarrow> Date \<times> World" where
  "new_Date w = (Time (times w (time_reads w)), w\<lparr>time_reads := Suc (time_reads w)\<rparr>)"

definition generateId :: "World \<Rightarrow> string \<times> World" where
  "generateId w = (uuids w (uuid_calls w), w\<lparr>uuid_calls := Suc (uuid_calls w)\<rparr>)"

text \<open>\<open>throw new TodoError(code, message)\<close>: the constructor reads the clock.\<close>

definition throw_TodoError :: "TodoErrorCodes \<Rightarrow> string \<Rightarrow> World \<Rightarrow> (error + 'a) \<times> World" where
  "throw_TodoError code message w =
     (let (stamp, w1) = new_Date w in (Inl (TodoError code message), w1))"

subsection \<open>Derived properties\<close>

definition isOverdue :: "Todo \<Rightarrow> World \<Rightarrow> bool \<times> World" where
  "isOverdue t w =
     (case dueDate t of
        None \<Rightarrow> (False, w)
      | Some d \<Rightarrow> (let (now, w1) = new_Date w in (date_gt now d \<and> \<not> complete t, w1)))"

definition isPending :: "Todo \<Rightarrow> bool" where
  "isPending t = (status t = PENDING \<and> \<not> complete t)"

definition isCompleted :: "Todo \<Rightarrow> bool" where
  "isCompleted t = (complete t \<and> status t = COMPLETED)"

subsection \<open>Validation and construction\<close>

text \<open>A string is truthy when it is not empty; \<open>undefined\<close> is falsy.\<close>

fun truthy :: "string option \<Rightarrow> bool" where
  "truthy None = False"
| "truthy (Some s) = (s \<noteq> [])"

fun trimmed_length :: "string option \<Rightarrow> nat" where
  "trimmed_length None = 0"
| "trimmed_length (Some s) = length (trim s)"

text \<open>
  \<open>Todo.validateData\<close>. Each failed rule pushes its message; no rule stops the others. The
  clock is read only when \<open>dueDate\<close> is present.
\<close>

definition validateData :: "ITodoData \<Rightarrow> World \<Rightarrow> ITodoValidation \<times> World" where
  "validateData data w =
     (let errors0 = [];
          warnings0 = [];
          errors1 = (if \<not> truthy (d_text data) \<or> trimmed_length (d_text data) = 0
                     then errors0 @ [''Text is required and cannot be empty''] else errors0);
          errors2 = (if truthy (d_text data) \<and> trimmed_length (d_text data) > 500
                     then errors1 @ [''Text cannot exceed 500 characters''] else errors1);
          errors3 = (if truthy (d_description data) \<and> trimmed_length (d_description data) > 1000
                     then errors2 @ [''Description cannot exceed 1000 characters''] else errors2);
          (warnings1, w1) =
            (case d_dueDate data of
               None \<Rightarrow> (warnings0, w)
             | Some d \<Rightarrow>
                 (let (now, w') = new_Date w
                  in (if date_lt d now then warnings0 @ [''Due date is in the past'']
                      else warnings0, w')));
          errors4 = (case d_priority data of
                       None \<Rightarrow> errors3
                     | Some p \<Rightarrow> if p \<noteq> [] \<and> p \<notin> set TodoPriority_values
                                then errors3 @ [''Invalid priority value''] else errors3);
          errors5 = (case d_status data of
                       None \<Rightarrow> errors4
                     | Some st \<Rightarrow> if st \<noteq> [] \<and> st \<notin> set TodoStatus_values
                                 then errors4 @ [''Invalid status value''] else errors4)
      in (\<lparr>isValid = (length errors5 = 0), errors = errors5, warnings = warnings1\<rparr>, w1))"

text \<open>
  The constructor, \<open>new Todo(data)\<close>: it throws a plain \<open>Error\<close> when validation fails; otherwise it draws a
  new id, reads the clock for \<open>createdAt\<close> and again for \<open>updatedAt\<close>, and fills in
  the content. It reads no \<open>id\<close>, \<open>createdAt\<close> or \<open>updatedAt\<close> from its argument.
\<close>

definition Todo_new :: "ITodoData \<Rightarrow> World \<Rightarrow> (error + Todo) \<times> World" where
  "Todo_new data w =
     (let (validation, w1) = validateData data w
      in if \<not> isValid validation
         then (Inl (Error (''Invalid TODO data: '' @ join '', '' (errors validation))), w1)
         else
           (let (i, w2) = generateId w1;
                (c, w3) = new_Date w2;
                (u, w4) = new_Date w3
            in (Inr \<lparr>id' = i, createdAt = c, updatedAt = u,
                     text' = (case d_text data of None \<Rightarrow> [] | Some s \<Rightarrow> trim s),
                     description =
                       (case d_description data of
                          None \<Rightarrow> None
                        | Some s \<Rightarrow> if trim s = [] then None else Some (trim s)),
                     complete = (case d_complete data of None \<Rightarrow> False | Some b \<Rightarrow> b),
                     status =
                       (case d_status data of
                          None \<Rightarrow> if d_complete data = Some True then COMPLETED else PENDING
                        | Some st \<Rightarrow> st),
                     priority = (case d_priority data of None \<Rightarrow> MEDIUM | Some p \<Rightarrow> p),
                     dueDate = d_dueDate data,
                     tags =
                       (case d_tags data of
                          None \<Rightarrow> []
                        | Some ts \<Rightarrow> new_Set (map (\<lambda>tag. toLowerCase (trim tag)) ts))\<rparr>,
                w4)))"

section \<open>The domain utilities\<close>

text \<open>
  \<open>TodoModelUtils.getTodoStatistics\<close>, over a collection of \<open>Todo\<close> objects, as the
  service holds them: \<open>isPending\<close> and \<open>isOverdue\<close> are the getters of the class. A
  counter is a number; \<open>undefined++\<close> stores \<open>NaN\<close>. The two tables start with the
  enumerated keys at zero, and \<open>table[key]++\<close> adds one to the entry of \<open>key\<close>; for
  a key that the table lacks it creates the entry with \<open>NaN\<close> (the setter of
  \<open>__proto__\<close> ignores a number).
\<close>

datatype jsnum = Num nat | NaN

record Statistics =
  total' :: nat
  completed :: nat
  pending :: nat
  overdue :: nat
  byStatus :: "(string \<times> jsnum) list"
  byPriority :: "(string \<times> jsnum) list"

definition increment :: "string \<Rightarrow> (string \<times> jsnum) list \<Rightarrow> (string \<times> jsnum) list" where
  "increment k table =
     (case map_of table k of
        Some (Num n) \<Rightarrow> map (\<lambda>(k', v). if k' = k then (k', Num (Suc n)) else (k', v)) table
      | Some NaN \<Rightarrow> table
      | None \<Rightarrow> if k = ''__proto__'' then table else table @ [(k, NaN)])"

definition stats_step :: "Todo \<Rightarrow> Statistics \<Rightarrow> World \<Rightarrow> Statistics \<times> World" where
  "stats_step todo stats w =
     (let stats1 = (if complete todo then stats\<lparr>completed := Suc (completed stats)\<rparr> else stats);
          stats2 = (if isPending todo then stats1\<lparr>pending := Suc (pending stats1)\<rparr> else stats1);
          (od, w1) = isOverdue todo w;
          stats3 = (if od then stats2\<lparr>overdue := Suc (overdue stats2)\<rparr> else stats2);
          stats4 = stats3\<lparr>byStatus := increment (status todo) (byStatus stats3)\<rparr>;
          stats5 = stats4\<lparr>byPriority := increment (priority todo) (byPriority stats4)\<rparr>
      in (stats5, w1))"

fun forEach_stats :: "Todo list \<Rightarrow> Statistics \<Rightarrow> World \<Rightarrow> Statistics \<times> World" where
  "forEach_stats [] stats w = (stats, w)"
| "forEach_stats (todo # rest) stats w =
     (let (stats1, w1) = stats_step todo stats w in forEach_stats rest stats1 w1)"

definition getTodoStatistics :: "Todo list \<Rightarrow> World \<Rightarrow> Statistics \<times> World" where
  "getTodoStatistics todos w =
     forEach_stats todos
       \<lparr>total' = length todos, completed = 0, pending = 0, overdue = 0,
        byStatus = [(PENDING, Num 0), (COMPLETED, Num 0), (ARCHIVED, Num 0)],
        byPriority = [(LOW, Num 0), (MEDIUM, Num 0), (HIGH, Num 0), (CRITICAL, Num 0)]\<rparr> w"

section \<open>The service\<close>

text \<open>
  \<open>class TodoService\<close>: the collection and the two callback slots (here: whether a
  callback is registered).
\<close>

record TodoService =
  todos :: "Todo list"
  onTodoListChanged :: bool
  onTodoOperation :: bool

subsection \<open>Serialisation\<close>

fun date_toJSON :: "Date \<Rightarrow> Date option" where
  "date_toJSON (Time a) = Some (Time a)"
| "date_toJSON Invalid_Date = None"

text \<open>\<open>Todo.toJSON\<close> followed by \<open>JSON.stringify\<close>; the getter \<open>isOverdue\<close> reads the clock.\<close>

definition toJSON :: "Todo \<Rightarrow> World \<Rightarrow> TodoJSON \<times> World" where
  "toJSON t w =
     (let (od, w1) = isOverdue t w
      in (\<lparr>j_id = Some (id' t),
           j_createdAt = date_toJSON (createdAt t),
           j_updatedAt = date_toJSON (updatedAt t),
           j_text = Some (text' t),
           j_description = description t,
           j_complete = Some (complete t),
           j_status = Some (status t),
           j_priority = Some (priority t),
           j_dueDate = (case dueDate t of None \<Rightarrow> None | Some d \<Rightarrow> date_toJSON d),
           j_tags = Some (tags t),
           j_isOverdue = Some od,
           j_isPending = Some (isPending t),
           j_isCompleted = Some (isCompleted t)\<rparr>, w1))"

fun stringify :: "Todo list \<Rightarrow> World \<Rightarrow> TodoJSON list \<times> World" where
  "stringify [] w = ([], w)"
| "stringify (t # ts) w =
     (let (j, w1) = toJSON t w; (js, w2) = stringify ts w1 in (j # js, w2))"

text \<open>
  What the constructor reads of an object that came out of \<open>JSON.parse\<close>. There the due
  date is a string, and the constructor makes a \<open>Date\<close> of it. (\<open>validateData\<close>
  compares the string itself with the clock, as numbers, so that for such an object it
  gives no warning; nothing reads the warnings of an object built this way.)
\<close>

definition as_ITodoData :: "TodoJSON \<Rightarrow> ITodoData" where
  "as_ITodoData j =
     \<lparr>d_text = j_text j, d_description = j_description j, d_complete = j_complete j,
      d_status = j_status j, d_priority = j_priority j, d_dueDate = j_dueDate j,
      d_tags = j_tags j\<rparr>"

subsection \<open>Private methods\<close>

text \<open>
  The private methods are written without their leading underscore.

  \<open>_commit\<close>: replace the collection, write it to the storage, call the change listener.
  The \<open>try\<close> encloses all three: a \<open>setItem\<close> that throws (the listener is then not
  called) and a change listener that throws (the storage is then written already) are both
  rethrown as a \<open>TodoError\<close> with \<open>STORAGE_ERROR\<close>; the collection has been replaced
  by then.
\<close>

definition commit ::
  "Todo list \<Rightarrow> TodoService \<Rightarrow> World \<Rightarrow> (error + unit) \<times> TodoService \<times> World" where
  "commit ts s w =
     (let s1 = s\<lparr>todos := ts\<rparr>;
          (json, w1) = stringify ts w;
          w2 = w1\<lparr>setItem_calls := Suc (setItem_calls w1)\<rparr>
      in if setItem_throws w1 (setItem_calls w1)
         then (let (r, w3) = throw_TodoError STORAGE_ERROR ''Failed to persist todos'' w2
               in (r, s1, w3))
         else
           (let w3 = w2\<lparr>localStorage := (localStorage w2)(LOCAL_STORAGE_KEY \<mapsto> Json_array json)\<rparr>
            in if onTodoListChanged s1
               then
                 (let w4 = w3\<lparr>listChanged_calls := listChanged_calls w3 @ [ts]\<rparr>
                  in if listChanged_throws w3 (length (listChanged_calls w3))
                     then (let (r, w5) = throw_TodoError STORAGE_ERROR ''Failed to persist todos'' w4
                           in (r, s1, w5))
                     else (Inr (), s1, w4))
               else (Inr (), s1, w3)))"

text \<open>
  \<open>_notifyOperation\<close>: call the operation listener, when one is registered. What the
  listener throws is thrown by \<open>_notifyOperation\<close>.
\<close>

definition notifyOperation ::
  "Todo \<Rightarrow> string \<Rightarrow> TodoService \<Rightarrow> World \<Rightarrow> (error + unit) \<times> World" where
  "notifyOperation todo operation s w =
     (if onTodoOperation s
      then
        (let w1 = w\<lparr>operation_calls := operation_calls w @ [(todo, operation)]\<rparr>
         in case operation_throws w (length (operation_calls w)) of
              Some e \<Rightarrow> (Inl e, w1)
            | None \<Rightarrow> (Inr (), w1))
      else (Inr (), w))"

definition validateTodoText :: "string \<Rightarrow> World \<Rightarrow> (error + unit) \<times> World" where
  "validateTodoText txt w =
     (if txt = [] then throw_TodoError VALIDATION_FAILED ''Todo text is required'' w
      else
        (let trimmedText = trim txt
         in if length trimmedText = 0
            then throw_TodoError VALIDATION_FAILED ''Todo text cannot be empty'' w
            else if length trimmedText > MAX_TEXT_LENGTH
            then throw_TodoError VALIDATION_FAILED ''Todo text cannot exceed 500 characters'' w
            else (Inr (), w)))"

definition findTodoById :: "string \<Rightarrow> TodoService \<Rightarrow> Todo option" where
  "findTodoById i s = find (\<lambda>todo. id' todo = i) (todos s)"

subsection \<open>Single-item operations\<close>

text \<open>
  \<open>interface ITodoUpdate\<close> (\<open>Partial<ITodoContent>\<close>). The object spread of
  \<open>updateTodo\<close> tells a property that is absent from one that is present with the value
  \<open>undefined\<close>: the first leaves the item's value in place, the second overrides it.
\<close>

datatype 'a partial = Absent | Undefined | Value 'a

record ITodoUpdate =
  u_text :: "string partial"
  u_description :: "string partial"
  u_complete :: "bool partial"
  u_status :: "string partial"
  u_priority :: "string partial"
  u_dueDate :: "Date partial"
  u_tags :: "string list partial"

text \<open>The value of a property of \<open>{...todo, ...updates}\<close>.\<close>

fun spread :: "'a option \<Rightarrow> 'a partial \<Rightarrow> 'a option" where
  "spread old Absent = old"
| "spread old Undefined = None"
| "spread old (Value v) = Some v"

text \<open>The argument that \<open>updateTodo\<close> gives the constructor:
  \<open>{...todo, ...updates, text: updates.text?.trim() || todo.text}\<close>.\<close>

definition spread_data :: "Todo \<Rightarrow> ITodoUpdate \<Rightarrow> ITodoData" where
  "spread_data todo updates =
     \<lparr>d_text =
        Some (case u_text updates of
                Value txt \<Rightarrow> if trim txt \<noteq> [] then trim txt else text' todo
              | _ \<Rightarrow> text' todo),
      d_description = spread (description todo) (u_description updates),
      d_complete = spread (Some (complete todo)) (u_complete updates),
      d_status = spread (Some (status todo)) (u_status updates),
      d_priority = spread (Some (priority todo)) (u_priority updates),
      d_dueDate = spread (dueDate todo) (u_dueDate updates),
      d_tags = spread (Some (tags todo)) (u_tags updates)\<rparr>"

definition updateTodo ::
  "string \<Rightarrow> ITodoUpdate \<Rightarrow> TodoService \<Rightarrow> World \<Rightarrow> (error + Todo) \<times> TodoService \<times> World" where
  "updateTodo i updates s w =
     (case findTodoById i s of
        None \<Rightarrow>
          (let (r, w1) = throw_TodoError TODO_NOT_FOUND (''Todo with id '' @ i @ '' not found'') w
           in (r, s, w1))
      | Some todo \<Rightarrow>
          (let (v, w0) = (case u_text updates of
                            Value txt \<Rightarrow> validateTodoText txt w
                          | _ \<Rightarrow> (Inr (), w))
           in case v of
                Inl e \<Rightarrow> (Inl e, s, w0)
              | Inr _ \<Rightarrow>
                  (let (r, w1) = Todo_new (spread_data todo updates) w0
                   in case r of
                        Inl e \<Rightarrow> (Inl e, s, w1)
                      | Inr updatedTodo \<Rightarrow>
                          (let s1 = s\<lparr>todos := map (\<lambda>t. if id' t = i then updatedTodo else t) (todos s)\<rparr>;
                               (c, s2, w2) = commit (todos s1) s1 w1
                           in case c of
                                Inl e \<Rightarrow> (Inl e, s2, w2)
                              | Inr _ \<Rightarrow>
                                  (let (n, w3) = notifyOperation updatedTodo ''update'' s2 w2
                                   in case n of
                                        Inl e \<Rightarrow> (Inl e, s2, w3)
                                      | Inr _ \<Rightarrow> (Inr updatedTodo, s2, w3))))))"

definition deleteTodo ::
  "string \<Rightarrow> TodoService \<Rightarrow> World \<Rightarrow> (error + bool) \<times> TodoService \<times> World" where
  "deleteTodo i s w =
     (case findTodoById i s of
        None \<Rightarrow> (Inr False, s, w)
      | Some todo \<Rightarrow>
          (let s1 = s\<lparr>todos := filter (\<lambda>t. id' t \<noteq> i) (todos s)\<rparr>;
               (c, s2, w2) = commit (todos s1) s1 w
           in case c of
                Inl e \<Rightarrow> (Inl e, s2, w2)
              | Inr _ \<Rightarrow>
                  (let (n, w3) = notifyOperation todo ''delete'' s2 w2
                   in case n of
                        Inl e \<Rightarrow> (Inl e, s2, w3)
                      | Inr _ \<Rightarrow> (Inr True, s2, w3))))"

definition no_update :: ITodoUpdate where
  "no_update =
     \<lparr>u_text = Absent, u_description = Absent, u_complete = Absent, u_status = Absent,
      u_priority = Absent, u_dueDate = Absent, u_tags = Absent\<rparr>"


subsection \<open>Bulk operations\<close>

text \<open>
  \<open>todosToDelete.forEach(todo => this._notifyOperation(todo, operation))\<close>: the first
  notification that throws ends the loop.
\<close>

fun forEach_notifyOperation ::
  "Todo list \<Rightarrow> string \<Rightarrow> TodoService \<Rightarrow> World \<Rightarrow> (error + unit) \<times> World" where
  "forEach_notifyOperation [] operation s w = (Inr (), w)"
| "forEach_notifyOperation (todo # rest) operation s w =
     (let (n, w1) = notifyOperation todo operation s w
      in case n of
           Inl e \<Rightarrow> (Inl e, w1)
         | Inr _ \<Rightarrow> forEach_notifyOperation rest operation s w1)"

definition deleteMultipleTodos ::
  "string list \<Rightarrow> TodoService \<Rightarrow> World \<Rightarrow> (error + nat) \<times> TodoService \<times> World" where
  "deleteMultipleTodos ids s w =
     (let initialLength = length (todos s);
          todosToDelete = filter (\<lambda>todo. id' todo \<in> set ids) (todos s);
          s1 = s\<lparr>todos := filter (\<lambda>todo. id' todo \<notin> set ids) (todos s)\<rparr>;
          (c, s2, w2) = commit (todos s1) s1 w
      in case c of
           Inl e \<Rightarrow> (Inl e, s2, w2)
         | Inr _ \<Rightarrow>
             (let (n, w3) = forEach_notifyOperation todosToDelete ''delete'' s2 w2
              in case n of
                   Inl e \<Rightarrow> (Inl e, s2, w3)
                 | Inr _ \<Rightarrow> (Inr (initialLength - length (todos s2)), s2, w3)))"

text \<open>
  \<open>updateMultipleTodos\<close>: one \<open>updateTodo\<close> after the other; whatever one of them throws
  is caught (and logged), and the loop goes on.
\<close>

fun updateMultipleTodos ::
  "(string \<times> ITodoUpdate) list \<Rightarrow> TodoService \<Rightarrow> World \<Rightarrow> Todo list \<times> TodoService \<times> World" where
  "updateMultipleTodos [] s w = ([], s, w)"
| "updateMultipleTodos ((i, data) # rest) s w =
     (let (r, s1, w1) = updateTodo i data s w;
          (updatedTodos, s2, w2) = updateMultipleTodos rest s1 w1
      in (case r of Inl e \<Rightarrow> updatedTodos | Inr updatedTodo \<Rightarrow> updatedTodo # updatedTodos,
          s2, w2))"

definition toggleAll ::
  "bool \<Rightarrow> TodoService \<Rightarrow> World \<Rightarrow> Todo list \<times> TodoService \<times> World" where
  "toggleAll flag s w =
     (let updates =
            map (\<lambda>todo. (id' todo,
                          no_update\<lparr>u_complete := Value flag,
                                     u_status := Value (if flag then COMPLETED else PENDING)\<rparr>))
                (todos s)
      in updateMultipleTodos updates s w)"

definition clearCompleted ::
  "TodoService \<Rightarrow> World \<Rightarrow> (error + nat) \<times> TodoService \<times> World" where
  "clearCompleted s w =
     (let completedIds = map id' (filter complete (todos s))
      in deleteMultipleTodos completedIds s w)"

subsection \<open>Data management\<close>

text \<open>
  \<open>validateTodo\<close>: whatever is thrown inside (the \<open>TodoError\<close> of
  \<open>_validateTodoText\<close>) is caught, and the answer is \<open>false\<close>.
\<close>

definition validateTodo :: "Todo \<Rightarrow> World \<Rightarrow> bool \<times> World" where
  "validateTodo todo w =
     (if id' todo = [] \<or> text' todo = [] then (False, w)
      else
        (let (v, w1) = validateTodoText (text' todo) w
         in case v of
              Inl e \<Rightarrow> (False, w1)
            | Inr _ \<Rightarrow>
                (case dueDate todo of
                   None \<Rightarrow> (True, w1)
                 | Some d \<Rightarrow> if isNaN_getTime d then (False, w1) else (True, w1))))"

text \<open>
  \<open>exportTodos\<close>: the text of \<open>{version, timestamp, todos}\<close>; the clock is read for the
  timestamp, then by \<open>JSON.stringify\<close>.
\<close>

definition exportTodos :: "TodoService \<Rightarrow> World \<Rightarrow> json_text \<times> World" where
  "exportTodos s w =
     (let (stamp, w1) = new_Date w;
          (json, w2) = stringify (todos s) w1
      in (Json_object (Some CURRENT_VERSION) (date_toJSON stamp) (Some json), w2))"

text \<open>\<open>importData.todos.map(todo => new Todo(todo))\<close>: the first constructor that throws ends the map.\<close>

fun map_Todo_new :: "TodoJSON list \<Rightarrow> World \<Rightarrow> (error + Todo list) \<times> World" where
  "map_Todo_new [] w = (Inr [], w)"
| "map_Todo_new (j # js) w =
     (let (r, w1) = Todo_new (as_ITodoData j) w
      in case r of
           Inl e \<Rightarrow> (Inl e, w1)
         | Inr t \<Rightarrow>
             (let (rs, w2) = map_Todo_new js w1
              in (case rs of Inl e \<Rightarrow> Inl e | Inr ts \<Rightarrow> Inr (t # ts), w2)))"

text \<open>\<open>importedTodos.filter(todo => this.validateTodo(todo))\<close>.\<close>

fun filter_validateTodo :: "Todo list \<Rightarrow> World \<Rightarrow> Todo list \<times> World" where
  "filter_validateTodo [] w = ([], w)"
| "filter_validateTodo (todo # rest) w =
     (let (ok, w1) = validateTodo todo w;
          (valid, w2) = filter_validateTodo rest w1
      in (if ok then todo # valid else valid, w2))"

text \<open>
  \<open>importTodos\<close>. A \<open>TodoError\<close> thrown inside is rethrown as it is (the format error,
  the storage error of \<open>_commit\<close>); anything else (\<open>SyntaxError\<close>, \<open>TypeError\<close>, the
  constructor's \<open>Error\<close>) is rethrown as a new \<open>TodoError\<close> with \<open>INVALID_DATA\<close>.
\<close>

definition importTodos ::
  "json_text \<Rightarrow> TodoService \<Rightarrow> World \<Rightarrow> (error + nat) \<times> TodoService \<times> World" where
  "importTodos data s w =
     (case data of
        Unparseable \<Rightarrow>
          (let (r, w1) = throw_TodoError INVALID_DATA ''Failed to parse import data'' w
           in (r, s, w1))
      | Json_null \<Rightarrow>
          (let (r, w1) = throw_TodoError INVALID_DATA ''Failed to parse import data'' w
           in (r, s, w1))
      | Json_array _ \<Rightarrow>
          (let (r, w1) = throw_TodoError INVALID_DATA ''Invalid import data format'' w
           in (r, s, w1))
      | Json_object _ _ None \<Rightarrow>
          (let (r, w1) = throw_TodoError INVALID_DATA ''Invalid import data format'' w
           in (r, s, w1))
      | Json_object _ _ (Some entries) \<Rightarrow>
          (let (m, w1) = map_Todo_new entries w
           in case m of
                Inl e \<Rightarrow>
                  (let (r, w2) = throw_TodoError INVALID_DATA ''Failed to parse import data'' w1
                   in (r, s, w2))
              | Inr importedTodos \<Rightarrow>
                  (let (validTodos, w2) = filter_validateTodo importedTodos w1;
                       s1 = s\<lparr>todos := todos s @ validTodos\<rparr>;
                       (c, s2, w3) = commit (todos s1) s1 w2
                   in case c of
                        Inl e \<Rightarrow> (Inl e, s2, w3)
                      | Inr _ \<Rightarrow> (Inr (length validTodos), s2, w3))))"

definition restoreFromBackup ::
  "json_text \<Rightarrow> TodoService \<Rightarrow> World \<Rightarrow> bool \<times> TodoService \<times> World" where
  "restoreFromBackup backup s w =
     (let s0 = s\<lparr>todos := []\<rparr>;
          (r, s1, w1) = importTodos backup s0 w
      in case r of Inl e \<Rightarrow> (False, s1, w1) | Inr n \<Rightarrow> (True, s1, w1))"

subsection \<open>Two more methods of the entity\<close>

text \<open>
  \<open>Todo.update\<close>, the mutation of the entity itself: it assigns the properties of
  \<open>updates\<close> that are not \<open>undefined\<close> and then reads the clock for \<open>updatedAt\<close>.
\<close>

definition Todo_update :: "Todo \<Rightarrow> ITodoUpdate \<Rightarrow> World \<Rightarrow> Todo \<times> World" where
  "Todo_update this updates w =
     (let t1 = (case u_text updates of Value x \<Rightarrow> this\<lparr>text' := trim x\<rparr> | _ \<Rightarrow> this);
          t2 = (case u_description updates of
                  Value d \<Rightarrow> t1\<lparr>description := (if d \<noteq> [] then Some (trim d) else None)\<rparr>
                | _ \<Rightarrow> t1);
          t3 = (case u_complete updates of
                  Value c \<Rightarrow>
                    (let t = t2\<lparr>complete := c\<rparr>
                     in if c \<and> status t = PENDING then t\<lparr>status := COMPLETED\<rparr>
                        else if \<not> c \<and> status t = COMPLETED then t\<lparr>status := PENDING\<rparr>
                        else t)
                | _ \<Rightarrow> t2);
          t4 = (case u_status updates of Value st \<Rightarrow> t3\<lparr>status := st\<rparr> | _ \<Rightarrow> t3);
          t5 = (case u_priority updates of Value p \<Rightarrow> t4\<lparr>priority := p\<rparr> | _ \<Rightarrow> t4);
          t6 = (case u_dueDate updates of Value d \<Rightarrow> t5\<lparr>dueDate := Some d\<rparr> | _ \<Rightarrow> t5);
          t7 = (case u_tags updates of
                  Value ts \<Rightarrow> t6\<lparr>tags := new_Set (map (\<lambda>tag. toLowerCase (trim tag)) ts)\<rparr>
                | _ \<Rightarrow> t6);
          (now, w1) = new_Date w
      in (t7\<lparr>updatedAt := now\<rparr>, w1))"

text \<open>
  \<open>Todo.fromJSON\<close>: the constructor on the content of the object, then the object's
  \<open>id\<close>, \<open>createdAt\<close> and \<open>updatedAt\<close>, where it has them, put in the place of the new
  ones.
\<close>

definition fromJSON :: "TodoJSON \<Rightarrow> World \<Rightarrow> (error + Todo) \<times> World" where
  "fromJSON obj w =
     (let (r, w1) =
            Todo_new
              \<lparr>d_text = Some (case j_text obj of None \<Rightarrow> [] | Some s \<Rightarrow> s),
               d_description =
                 (case j_description obj of None \<Rightarrow> None
                  | Some s \<Rightarrow> if s = [] then None else Some s),
               d_complete = Some (case j_complete obj of None \<Rightarrow> False | Some b \<Rightarrow> b),
               d_status =
                 Some (case j_status obj of None \<Rightarrow> PENDING
                       | Some st \<Rightarrow> if st = [] then PENDING else st),
               d_priority =
                 Some (case j_priority obj of None \<Rightarrow> MEDIUM
                       | Some p \<Rightarrow> if p = [] then MEDIUM else p),
               d_dueDate = j_dueDate obj,
               d_tags = Some (case j_tags obj of None \<Rightarrow> [] | Some ts \<Rightarrow> ts)\<rparr> w
      in case r of
           Inl e \<Rightarrow> (Inl e, w1)
         | Inr todo \<Rightarrow>
             (Inr (todo\<lparr>id' := (case j_id obj of None \<Rightarrow> id' todo
                                 | Some i \<Rightarrow> if i = [] then id' todo else i),
                        createdAt := (case j_createdAt obj of None \<Rightarrow> createdAt todo | Some d \<Rightarrow> d),
                        updatedAt := (case j_updatedAt obj of None \<Rightarrow> updatedAt todo | Some d \<Rightarrow> d)\<rparr>),
              w1))"

section \<open>Sample states\<close>

definition sample_world :: World where
  "sample_world =
     \<lparr>uuids = (\<lambda>n. ''fresh-'' @ replicate n CHR ''i''), uuid_calls = 0,
      times = (\<lambda>n. 1000 + int n), time_reads = 0,
      localStorage = Map.empty, setItem_throws = (\<lambda>n. False), setItem_calls = 0,
      listChanged_calls = [], listChanged_throws = (\<lambda>n. False),
      operation_calls = [], operation_throws = (\<lambda>n. None)\<rparr>"

definition full_storage_world :: World where
  "full_storage_world = sample_world\<lparr>setItem_throws := (\<lambda>n. True)\<rparr>"

definition failing_listener_world :: World where
  "failing_listener_world = sample_world\<lparr>listChanged_throws := (\<lambda>n. True)\<rparr>"

definition failing_observer_world :: World where
  "failing_observer_world = sample_world\<lparr>operation_throws := (\<lambda>n. Some (Error ''observer''))\<rparr>"

definition milk :: Todo where
  "milk =
     \<lparr>id' = ''a'', createdAt = Time 1, updatedAt = Time 2, text' = ''Buy milk'',
      description = None, complete = False, status = PENDING, priority = MEDIUM,
      dueDate = None, tags = []\<rparr>"

definition bank :: Todo where
  "bank =
     \<lparr>id' = ''b'', createdAt = Time 3, updatedAt = Time 4, text' = ''Call bank'',
      description = None, complete = False, status = ARCHIVED, priority = HIGH,
      dueDate = Some (Time 500), tags = [''work'']\<rparr>"

definition sample_service :: TodoService where
  "sample_service = \<lparr>todos = [milk, bank], onTodoListChanged = True, onTodoOperation = True\<rparr>"

definition bad_data :: ITodoData where
  "bad_data =
     \<lparr>d_text = Some ''   '', d_description = Some (replicate 1001 CHR ''x''),
      d_complete = None, d_status = Some ''done'', d_priority = Some ''urgent'',
      d_dueDate = Some (Time 5), d_tags = None\<rparr>"

definition late_data :: ITodoData where
  "late_data =
     \<lparr>d_text = Some '' Pay rent '', d_description = None, d_complete = None, d_status = None,
      d_priority = None, d_dueDate = Some (Time 5), d_tags = Some ['' Home '', ''home'']\<rparr>"

definition milk_json :: TodoJSON where
  "milk_json =
     \<lparr>j_id = Some ''a'', j_createdAt = Some (Time 1), j_updatedAt = Some (Time 2),
      j_text = Some ''Buy milk'', j_description = None, j_complete = Some False,
      j_status = Some PENDING, j_priority = Some MEDIUM, j_dueDate = None, j_tags = Some [],
      j_isOverdue = Some False, j_isPending = Some True, j_isCompleted = Some False\<rparr>"

definition sample_backup :: json_text where
  "sample_backup = Json_object (Some CURRENT_VERSION) (Some (Time 900)) (Some [milk_json])"

definition steady_world :: World where
  "steady_world = sample_world\<lparr>times := (\<lambda>n. 1000)\<rparr>"

definition blank_json :: TodoJSON where
  "blank_json = milk_json\<lparr>j_id := Some ''c'', j_text := Some ''''\<rparr>"

definition mixed_payload :: json_text where
  "mixed_payload = Json_object (Some CURRENT_VERSION) (Some (Time 900)) (Some [milk_json, blank_json])"

definition exported :: "json_text \<times> World" where
  "exported = exportTodos sample_service sample_world"

section \<open>Removing an unknown id\<close>

lemma findTodoById_None: "findTodoById i s = None \<longleftrightarrow> i \<notin> id' ` set (todos s)"
  by (auto simp: findTodoById_def find_None_iff)

text \<open>
  C8. When no item of the collection has the id, \<open>deleteTodo\<close> returns \<open>false\<close> and leaves
  everything as it was: the service (so the collection) and the whole environment, that is
  the storage and the number of \<open>setItem\<close> calls (no commit), and the recorded invocations of
  the change listener and of the operation listener (none added).
\<close>

theorem deleteTodo_unknown_id:
  assumes "i \<notin> id' ` set (todos s)"
  shows "deleteTodo i s w = (Inr False, s, w)"
proof -
  from assms have "findTodoById i s = None"
    by (simp add: findTodoById_None)
  then show ?thesis
    by (simp add: deleteTodo_def)
qed

theorem deleteTodo_unknown_id_witness:
  "''zz'' \<notin> id' ` set (todos sample_service)
   \<and> deleteTodo ''zz'' sample_service sample_world = (Inr False, sample_service, sample_world)"
  using deleteTodo_unknown_id [of "''zz''" sample_service sample_world]
  by (simp add: sample_service_def milk_def bank_def)

section \<open>Evaluation of the samples\<close>

lemmas enum_defs = PENDING_def COMPLETED_def ARCHIVED_def LOW_def MEDIUM_def HIGH_def CRITICAL_def
  TodoStatus_values_def TodoPriority_values_def

lemmas sample_defs = sample_service_def sample_world_def full_storage_world_def milk_def bank_def

lemmas entity_defs = Todo_new_def validateData_def generateId_def new_Date_def trim_def
  isWhiteSpace_def spread_data_def no_update_def toJSON_def isOverdue_def isPending_def
  isCompleted_def date_gt_def as_ITodoData_def new_Set_def Set_add_def

lemmas service_defs = findTodoById_def commit_def notifyOperation_def validateTodoText_def
  throw_TodoError_def MAX_TEXT_LENGTH_def LOCAL_STORAGE_KEY_def

section \<open>Validation and construction of an entity\<close>

lemma trim_Nil [simp]: "trim [] = []" by (simp add: trim_def)

lemma push_if: "(if c then xs @ [m] else xs) = xs @ (if c then [m] else [])"
  by simp

lemma validateData_world:
  "snd (validateData d w) =
     (case d_dueDate d of None \<Rightarrow> w | Some x \<Rightarrow> w\<lparr>time_reads := Suc (time_reads w)\<rparr>)"
  by (simp add: validateData_def Let_def new_Date_def case_prod_beta split: option.splits)

lemma validateData_isValid:
  "isValid (fst (validateData d w)) = (errors (fst (validateData d w)) = [])"
  by (simp add: validateData_def Let_def case_prod_beta)

lemma validateData_errors:
  "errors (fst (validateData d w)) =
     (if (case d_text d of None \<Rightarrow> True | Some s \<Rightarrow> trim s = [])
      then [''Text is required and cannot be empty''] else [])
     @ (if (case d_text d of None \<Rightarrow> False | Some s \<Rightarrow> length (trim s) > 500)
        then [''Text cannot exceed 500 characters''] else [])
     @ (if (case d_description d of None \<Rightarrow> False | Some s \<Rightarrow> length (trim s) > 1000)
        then [''Description cannot exceed 1000 characters''] else [])
     @ (if (case d_priority d of None \<Rightarrow> False
            | Some p \<Rightarrow> p \<noteq> [] \<and> p \<notin> set TodoPriority_values)
        then [''Invalid priority value''] else [])
     @ (if (case d_status d of None \<Rightarrow> False
            | Some st \<Rightarrow> st \<noteq> [] \<and> st \<notin> set TodoStatus_values)
        then [''Invalid status value''] else [])"
  by (cases "d_text d"; cases "d_description d"; cases "d_priority d"; cases "d_status d")
     (simp_all add: validateData_def Let_def case_prod_beta push_if)

lemma Todo_new_invalid:
  assumes "errors (fst (validateData d w)) \<noteq> []"
  shows "Todo_new d w =
           (Inl (Error (''Invalid TODO data: '' @ join '', '' (errors (fst (validateData d w))))),
            snd (validateData d w))"
  using assms by (simp add: Todo_new_def case_prod_beta validateData_isValid)

lemma Todo_new_valid:
  assumes "errors (fst (validateData d w)) = []"
  shows "Todo_new d w =
           (Inr \<lparr>id' = uuids w (uuid_calls w),
                 createdAt = Time (times w (time_reads (snd (validateData d w)))),
                 updatedAt = Time (times w (Suc (time_reads (snd (validateData d w))))),
                 text' = (case d_text d of None \<Rightarrow> [] | Some s \<Rightarrow> trim s),
                 description =
                   (case d_description d of
                      None \<Rightarrow> None
                    | Some s \<Rightarrow> if trim s = [] then None else Some (trim s)),
                 complete = (case d_complete d of None \<Rightarrow> False | Some b \<Rightarrow> b),
                 status =
                   (case d_status d of
                      None \<Rightarrow> if d_complete d = Some True then COMPLETED else PENDING
                    | Some st \<Rightarrow> st),
                 priority = (case d_priority d of None \<Rightarrow> MEDIUM | Some p \<Rightarrow> p),
                 dueDate = d_dueDate d,
                 tags =
                   (case d_tags d of
                      None \<Rightarrow> []
                    | Some ts \<Rightarrow> new_Set (map (\<lambda>tag. toLowerCase (trim tag)) ts))\<rparr>,
            (snd (validateData d w))
              \<lparr>uuid_calls := Suc (uuid_calls w),
               time_reads := Suc (Suc (time_reads (snd (validateData d w))))\<rparr>)"
  using assms
  by (simp add: Todo_new_def case_prod_beta validateData_isValid generateId_def new_Date_def
      validateData_world split: option.splits)

text \<open>
  C7, as the code has it. \<open>validateData\<close> accumulates: the list of errors holds the message
  of every failed rule, in the order of the rules (text required and not blank; text of at
  most 500 characters after trimming; description, when present, of at most 1000; priority
  and status, when present and not empty, among the enumerated ones). The constructor
  returns an entity exactly when that list is empty, and otherwise throws a plain
  \<open>Error\<close>, which carries no error code, whose message joins all of the list. The due
  date plays no part in the errors, whatever the clock: a past due date only adds a warning.
\<close>

theorem Todo_new_reports_all_violations:
  "errors (fst (validateData data w)) =
     (if (case d_text data of None \<Rightarrow> True | Some s \<Rightarrow> trim s = [])
      then [''Text is required and cannot be empty''] else [])
     @ (if (case d_text data of None \<Rightarrow> False | Some s \<Rightarrow> length (trim s) > 500)
        then [''Text cannot exceed 500 characters''] else [])
     @ (if (case d_description data of None \<Rightarrow> False | Some s \<Rightarrow> length (trim s) > 1000)
        then [''Description cannot exceed 1000 characters''] else [])
     @ (if (case d_priority data of None \<Rightarrow> False
            | Some p \<Rightarrow> p \<noteq> [] \<and> p \<notin> set TodoPriority_values)
        then [''Invalid priority value''] else [])
     @ (if (case d_status data of None \<Rightarrow> False
            | Some st \<Rightarrow> st \<noteq> [] \<and> st \<notin> set TodoStatus_values)
        then [''Invalid status value''] else [])
   \<and> (case fst (Todo_new data w) of
         Inr todo \<Rightarrow> errors (fst (validateData data w)) = []
       | Inl e \<Rightarrow>
           errors (fst (validateData data w)) \<noteq> []
           \<and> e = Error (''Invalid TODO data: '' @ join '', '' (errors (fst (validateData data w)))))
   \<and> errors (fst (validateData (data\<lparr>d_dueDate := due\<rparr>) w')) = errors (fst (validateData data w))
   \<and> warnings (fst (validateData data w)) =
       (case d_dueDate data of
          None \<Rightarrow> []
        | Some d \<Rightarrow> if date_lt d (Time (times w (time_reads w)))
                    then [''Due date is in the past''] else [])"
proof (intro conjI)
  show "errors (fst (validateData (data\<lparr>d_dueDate := due\<rparr>) w')) = errors (fst (validateData data w))"
    by (simp add: validateData_errors)
  show "warnings (fst (validateData data w)) =
       (case d_dueDate data of
          None \<Rightarrow> []
        | Some d \<Rightarrow> if date_lt d (Time (times w (time_reads w)))
                    then [''Due date is in the past''] else [])"
    by (simp add: validateData_def Let_def case_prod_beta new_Date_def split: option.splits)
  show "case fst (Todo_new data w) of
         Inr todo \<Rightarrow> errors (fst (validateData data w)) = []
       | Inl e \<Rightarrow>
           errors (fst (validateData data w)) \<noteq> []
           \<and> e = Error (''Invalid TODO data: '' @ join '', '' (errors (fst (validateData data w))))"
  proof (cases "errors (fst (validateData data w)) = []")
    case True
    then show ?thesis by (simp add: Todo_new_valid)
  next
    case False
    then show ?thesis by (simp add: Todo_new_invalid)
  qed
qed (rule validateData_errors)

theorem Todo_new_reports_all_violations_witness:
  "fst (Todo_new bad_data sample_world) =
     Inl (Error ''Invalid TODO data: Text is required and cannot be empty, Description cannot exceed 1000 characters, Invalid priority value, Invalid status value'')
   \<and> warnings (fst (validateData bad_data sample_world)) = [''Due date is in the past'']
   \<and> warnings (fst (validateData late_data sample_world)) = [''Due date is in the past'']
   \<and> errors (fst (validateData late_data sample_world)) = []"
  using Todo_new_reports_all_violations [of bad_data sample_world None sample_world]
    Todo_new_reports_all_violations [of late_data sample_world None sample_world]
  by (simp add: bad_data_def late_data_def sample_world_def trim_def isWhiteSpace_def enum_defs
      split: sum.splits)

theorem Todo_new_failure_is_plain_Error:
  "\<not> (\<exists>todo. fst (Todo_new bad_data sample_world) = Inr todo)
   \<and> \<not> (\<exists>m. fst (Todo_new bad_data sample_world) = Inl (TodoError VALIDATION_FAILED m))"
  by (simp add: Todo_new_invalid validateData_errors bad_data_def trim_def isWhiteSpace_def)

section \<open>The commit and the single-item operations\<close>

lemma triple_collapse: "x = (fst x, fst (snd x), snd (snd x))"
  by simp

lemma throw_TodoError_eq:
  "throw_TodoError code message w =
     (Inl (TodoError code message), w\<lparr>time_reads := Suc (time_reads w)\<rparr>)"
  by (simp add: throw_TodoError_def new_Date_def)

lemma toJSON_world:
  "snd (toJSON t w) =
     (case dueDate t of None \<Rightarrow> w | Some d \<Rightarrow> w\<lparr>time_reads := Suc (time_reads w)\<rparr>)"
  by (simp add: toJSON_def isOverdue_def new_Date_def case_prod_beta split: option.splits)

lemma stringify_world:
  "snd (stringify ts w) =
     w\<lparr>time_reads := time_reads w + length (filter (\<lambda>t. dueDate t \<noteq> None) ts)\<rparr>"
  by (induction ts arbitrary: w) (simp_all add: case_prod_beta toJSON_world split: option.splits)

lemma stringify_items:
  "map j_id (fst (stringify ts w)) = map (\<lambda>t. Some (id' t)) ts"
  "map j_text (fst (stringify ts w)) = map (\<lambda>t. Some (text' t)) ts"
  by (induction ts arbitrary: w) (simp_all add: case_prod_beta toJSON_def)

lemma commit_service: "fst (snd (commit ts s w)) = s\<lparr>todos := ts\<rparr>"
  by (simp add: commit_def Let_def case_prod_beta)

lemma commit_result:
  "fst (commit ts s w) =
     (if setItem_throws w (setItem_calls w)
         \<or> (onTodoListChanged s \<and> listChanged_throws w (length (listChanged_calls w)))
      then Inl (TodoError STORAGE_ERROR ''Failed to persist todos'') else Inr ())"
  by (simp add: commit_def Let_def case_prod_beta stringify_world throw_TodoError_eq)

lemma commit_world:
  "snd (snd (commit ts s w)) =
     (if setItem_throws w (setItem_calls w)
      then (snd (stringify ts w))
             \<lparr>setItem_calls := Suc (setItem_calls w),
              time_reads := Suc (time_reads (snd (stringify ts w)))\<rparr>
      else (snd (stringify ts w))
             \<lparr>setItem_calls := Suc (setItem_calls w),
              localStorage := (localStorage w)(LOCAL_STORAGE_KEY \<mapsto> Json_array (fst (stringify ts w))),
              listChanged_calls :=
                (if onTodoListChanged s then listChanged_calls w @ [ts] else listChanged_calls w),
              time_reads :=
                (if onTodoListChanged s \<and> listChanged_throws w (length (listChanged_calls w))
                 then Suc (time_reads (snd (stringify ts w)))
                 else time_reads (snd (stringify ts w)))\<rparr>)"
  by (simp add: commit_def Let_def case_prod_beta stringify_world throw_TodoError_eq)

lemma commit_frame:
  "setItem_calls (snd (snd (commit ts s w))) = Suc (setItem_calls w)"
  "setItem_throws (snd (snd (commit ts s w))) = setItem_throws w"
  "listChanged_throws (snd (snd (commit ts s w))) = listChanged_throws w"
  "operation_calls (snd (snd (commit ts s w))) = operation_calls w"
  "operation_throws (snd (snd (commit ts s w))) = operation_throws w"
  "uuids (snd (snd (commit ts s w))) = uuids w"
  "uuid_calls (snd (snd (commit ts s w))) = uuid_calls w"
  "times (snd (snd (commit ts s w))) = times w"
  by (simp_all add: commit_world stringify_world)

lemma commit_effects:
  "localStorage (snd (snd (commit ts s w))) =
     (if setItem_throws w (setItem_calls w) then localStorage w
      else (localStorage w)(LOCAL_STORAGE_KEY \<mapsto> Json_array (fst (stringify ts w))))"
  "listChanged_calls (snd (snd (commit ts s w))) =
     (if \<not> setItem_throws w (setItem_calls w) \<and> onTodoListChanged s
      then listChanged_calls w @ [ts] else listChanged_calls w)"
  by (simp_all add: commit_world stringify_world)

lemma Todo_new_world:
  "snd (Todo_new d w) =
     (if errors (fst (validateData d w)) = []
      then (snd (validateData d w))
             \<lparr>uuid_calls := Suc (uuid_calls w),
              time_reads := Suc (Suc (time_reads (snd (validateData d w))))\<rparr>
      else snd (validateData d w))"
  by (simp add: Todo_new_valid Todo_new_invalid)

lemma Todo_new_frame:
  assumes "Todo_new d w = (r, w1)"
  shows "setItem_throws w1 = setItem_throws w" "setItem_calls w1 = setItem_calls w"
    "localStorage w1 = localStorage w" "listChanged_calls w1 = listChanged_calls w"
    "operation_calls w1 = operation_calls w" "uuids w1 = uuids w" "times w1 = times w"
    "listChanged_throws w1 = listChanged_throws w" "operation_throws w1 = operation_throws w"
proof -
  have "w1 = snd (Todo_new d w)"
    using assms by simp
  then show "setItem_throws w1 = setItem_throws w" "setItem_calls w1 = setItem_calls w"
    "localStorage w1 = localStorage w" "listChanged_calls w1 = listChanged_calls w"
    "operation_calls w1 = operation_calls w" "uuids w1 = uuids w" "times w1 = times w"
    "listChanged_throws w1 = listChanged_throws w" "operation_throws w1 = operation_throws w"
    by (simp_all add: Todo_new_world validateData_world split: option.splits)
qed

lemma validateTodoText_cases:
  "validateTodoText txt w = (Inr (), w)
   \<or> (\<exists>m. validateTodoText txt w
            = (Inl (TodoError VALIDATION_FAILED m), w\<lparr>time_reads := Suc (time_reads w)\<rparr>))"
  by (simp add: validateTodoText_def Let_def throw_TodoError_eq)

lemma validateTodoText_accepts:
  "fst (validateTodoText txt w) = Inr () \<longleftrightarrow> trim txt \<noteq> [] \<and> length (trim txt) \<le> MAX_TEXT_LENGTH"
  by (auto simp: validateTodoText_def Let_def throw_TodoError_eq)

lemma notifyOperation_result:
  "fst (notifyOperation t op s w) =
     (if onTodoOperation s
      then (case operation_throws w (length (operation_calls w)) of
              Some e \<Rightarrow> Inl e | None \<Rightarrow> Inr ())
      else Inr ())"
  by (simp add: notifyOperation_def Let_def split: option.splits)

lemma notifyOperation_world:
  "snd (notifyOperation t op s w) =
     (if onTodoOperation s then w\<lparr>operation_calls := operation_calls w @ [(t, op)]\<rparr> else w)"
  by (simp add: notifyOperation_def Let_def split: option.splits)

lemma updateTodo_not_found:
  assumes "findTodoById i s = None"
  shows "updateTodo i u s w =
           (Inl (TodoError TODO_NOT_FOUND (''Todo with id '' @ i @ '' not found'')), s,
            w\<lparr>time_reads := Suc (time_reads w)\<rparr>)"
  using assms by (simp add: updateTodo_def throw_TodoError_eq)

lemma updateTodo_refused:
  assumes "findTodoById i s = Some todo"
    and "u_text u = Value txt" and "validateTodoText txt w = (Inl e, w0)"
  shows "updateTodo i u s w = (Inl e, s, w0)"
  using assms by (simp add: updateTodo_def)

lemma updateTodo_rejected:
  assumes "findTodoById i s = Some todo"
    and "(case u_text u of Value txt \<Rightarrow> validateTodoText txt w | _ \<Rightarrow> (Inr (), w)) = (Inr (), w)"
    and "Todo_new (spread_data todo u) w = (Inl e, w1)"
  shows "updateTodo i u s w = (Inl e, s, w1)"
  using assms by (simp add: updateTodo_def)

lemma updateTodo_constructed:
  assumes "findTodoById i s = Some todo"
    and "(case u_text u of Value txt \<Rightarrow> validateTodoText txt w | _ \<Rightarrow> (Inr (), w)) = (Inr (), w)"
    and "Todo_new (spread_data todo u) w = (Inr t', w1)"
    and "s1 = s\<lparr>todos := map (\<lambda>t. if id' t = i then t' else t) (todos s)\<rparr>"
    and "wc = snd (snd (commit (todos s1) s1 w1))"
  shows "updateTodo i u s w =
           (if setItem_throws w (setItem_calls w)
               \<or> (onTodoListChanged s \<and> listChanged_throws w (length (listChanged_calls w)))
            then (Inl (TodoError STORAGE_ERROR ''Failed to persist todos''), s1, wc)
            else (if onTodoOperation s
                  then (case operation_throws w (length (operation_calls w)) of
                          Some e \<Rightarrow> Inl e | None \<Rightarrow> Inr t')
                  else Inr t',
                  s1, snd (notifyOperation t' ''update'' s1 wc)))"
proof -
  note fr = Todo_new_frame [OF assms(3)]
  have s1: "fst (snd (commit (todos s1) s1 w1)) = s1"
    by (simp add: commit_service)
  have bound: "onTodoListChanged s1 = onTodoListChanged s" "onTodoOperation s1 = onTodoOperation s"
    by (simp_all add: assms(4))
  have r: "fst (commit (todos s1) s1 w1) =
             (if setItem_throws w (setItem_calls w)
                 \<or> (onTodoListChanged s \<and> listChanged_throws w (length (listChanged_calls w)))
              then Inl (TodoError STORAGE_ERROR ''Failed to persist todos'') else Inr ())"
    by (simp add: commit_result fr bound)
  have n: "fst (notifyOperation t' ''update'' s1 wc) =
             (if onTodoOperation s
              then (case operation_throws w (length (operation_calls w)) of
                      Some e \<Rightarrow> Inl e | None \<Rightarrow> Inr ())
              else Inr ())"
    by (simp add: notifyOperation_result assms(5) commit_frame fr bound)
  show ?thesis
    using assms(1-3) s1 r n
    by (simp add: updateTodo_def Let_def assms(4,5) [symmetric] case_prod_beta
        split: option.splits)
qed

lemma Todo_new_Inr_valid:
  assumes "Todo_new d w = (Inr t, w1)"
  shows "errors (fst (validateData d w)) = []"
proof (rule ccontr)
  assume "errors (fst (validateData d w)) \<noteq> []"
  from Todo_new_invalid [OF this] assms show False by simp
qed

lemma validateData_accepts_iff:
  "errors (fst (validateData d w)) = [] \<longleftrightarrow>
     (case d_text d of None \<Rightarrow> False | Some s \<Rightarrow> trim s \<noteq> [] \<and> length (trim s) \<le> 500)
     \<and> (case d_description d of None \<Rightarrow> True | Some s \<Rightarrow> length (trim s) \<le> 1000)
     \<and> (case d_priority d of None \<Rightarrow> True | Some p \<Rightarrow> p = [] \<or> p \<in> set TodoPriority_values)
     \<and> (case d_status d of None \<Rightarrow> True | Some st \<Rightarrow> st = [] \<or> st \<in> set TodoStatus_values)"
  by (cases "d_text d"; cases "d_description d"; cases "d_priority d"; cases "d_status d")
     (auto simp: validateData_errors)







lemma sample_world_fields:
  "\<not> setItem_throws sample_world n" "setItem_calls sample_world = 0"
  "\<not> listChanged_throws sample_world n" "listChanged_calls sample_world = []"
  "operation_throws sample_world n = None" "operation_calls sample_world = []"
  "localStorage sample_world = Map.empty"
  by (simp_all add: sample_world_def)

lemma failing_listener_fields:
  "\<not> setItem_throws failing_listener_world n" "setItem_calls failing_listener_world = 0"
  "listChanged_throws failing_listener_world n" "listChanged_calls failing_listener_world = []"
  "operation_throws failing_listener_world n = None" "operation_calls failing_listener_world = []"
  "localStorage failing_listener_world = Map.empty"
  by (simp_all add: failing_listener_world_def sample_world_def)

lemma failing_observer_fields:
  "\<not> setItem_throws failing_observer_world n" "setItem_calls failing_observer_world = 0"
  "\<not> listChanged_throws failing_observer_world n" "listChanged_calls failing_observer_world = []"
  "operation_throws failing_observer_world n = Some (Error ''observer'')"
  "operation_calls failing_observer_world = []"
  "localStorage failing_observer_world = Map.empty"
  by (simp_all add: failing_observer_world_def sample_world_def)

lemma sample_service_fields:
  "todos sample_service = [milk, bank]" "onTodoListChanged sample_service"
  "onTodoOperation sample_service"
  by (simp_all add: sample_service_def)


section \<open>Bulk removal\<close>

lemma forEach_notifyOperation_unbound:
  assumes "\<not> onTodoOperation s"
  shows "forEach_notifyOperation ts op s w = (Inr (), w)"
  using assms by (induction ts arbitrary: w) (simp_all add: notifyOperation_def)

lemma forEach_notifyOperation_returns:
  assumes "onTodoOperation s"
    and "\<forall>j < length ts. operation_throws w (length (operation_calls w) + j) = None"
  shows "forEach_notifyOperation ts op s w =
           (Inr (), w\<lparr>operation_calls := operation_calls w @ map (\<lambda>t. (t, op)) ts\<rparr>)"
  using assms(2)
proof (induction ts arbitrary: w)
  case Nil
  then show ?case by simp
next
  case (Cons t ts)
  let ?w1 = "w\<lparr>operation_calls := operation_calls w @ [(t, op)]\<rparr>"
  have first: "operation_throws w (length (operation_calls w)) = None"
    using Cons.prems [rule_format, of 0] by simp
  have "\<forall>j < length ts. operation_throws ?w1 (length (operation_calls ?w1) + j) = None"
    using Cons.prems [rule_format, of "Suc j" for j] by simp
  from Cons.IH [OF this] first assms(1) show ?case
    by (simp add: notifyOperation_def)
qed

lemma forEach_notifyOperation_throws:
  assumes "onTodoOperation s"
    and "j < length ts"
    and "\<forall>k < j. operation_throws w (length (operation_calls w) + k) = None"
    and "operation_throws w (length (operation_calls w) + j) = Some e"
  shows "forEach_notifyOperation ts op s w =
           (Inl e, w\<lparr>operation_calls := operation_calls w @ map (\<lambda>t. (t, op)) (take (Suc j) ts)\<rparr>)"
  using assms(2-)
proof (induction ts arbitrary: w j)
  case Nil
  then show ?case by simp
next
  case (Cons t ts)
  let ?w1 = "w\<lparr>operation_calls := operation_calls w @ [(t, op)]\<rparr>"
  show ?case
  proof (cases j)
    case 0
    with Cons.prems assms(1) show ?thesis
      by (simp add: notifyOperation_def)
  next
    case (Suc j')
    have first: "operation_throws w (length (operation_calls w)) = None"
      using Cons.prems(2) [rule_format, of 0] Suc by simp
    have 1: "j' < length ts"
      using Cons.prems(1) Suc by simp
    have 2: "\<forall>k < j'. operation_throws ?w1 (length (operation_calls ?w1) + k) = None"
      using Cons.prems(2) [rule_format, of "Suc k" for k] Suc by simp
    have 3: "operation_throws ?w1 (length (operation_calls ?w1) + j') = Some e"
      using Cons.prems(3) Suc by simp
    from Cons.IH [OF 1 2 3] first assms(1) Suc show ?thesis
      by (simp add: notifyOperation_def)
  qed
qed

lemma first_throw:
  fixes n :: nat
  assumes "\<not> (\<forall>j < n. f j = None)"
  shows "\<exists>j e. j < n \<and> (\<forall>k < j. f k = None) \<and> f j = Some (e :: 'a)"
proof -
  from assms have "\<exists>j. j < n \<and> f j \<noteq> None" by blast
  then obtain j where j: "j < n \<and> f j \<noteq> None" and least: "\<forall>k < j. \<not> (k < n \<and> f k \<noteq> None)"
    using exists_least_iff [of "\<lambda>j. j < n \<and> f j \<noteq> None"] by blast
  from j obtain e where "f j = Some e" by blast
  moreover have "\<forall>k < j. f k = None"
    using least j by auto
  ultimately show ?thesis using j by blast
qed

lemma removed_count:
  "length xs - length (filter (\<lambda>x. \<not> P x) xs) = length (filter P xs)"
  using sum_length_filter_compl [of P xs] by simp

text \<open>
  C10, as the code has it. Every \<open>deleteMultipleTodos\<close> filters the collection and calls
  \<open>_commit\<close> once (one \<open>setItem\<close>), also when no id matches. When the write throws, the
  call throws the storage error: nothing is returned, no listener is called, the storage is
  as before. When the write is accepted, a registered change listener is called once with
  the remaining items; when it throws, the call throws the storage error as well, with no
  operation notification. Otherwise a registered operation listener is called with
  \<open>delete\<close> for each removed item, in order: when all these invocations return, the call
  returns the number of removed items; when one of them throws, the call throws that
  instead, and the removed items after it are not notified. \<open>clearCompleted\<close> is
  \<open>deleteMultipleTodos\<close> on the ids of the complete items.
\<close>

theorem deleteMultipleTodos_commits_once:
  assumes "deleteMultipleTodos ids s w = (r, s', w')"
    and "removed = filter (\<lambda>t. id' t \<in> set ids) (todos s)"
  shows "setItem_calls w' = Suc (setItem_calls w)
       \<and> todos s' = filter (\<lambda>t. id' t \<notin> set ids) (todos s)
       \<and> length (todos s) - length (todos s') = length removed
       \<and> (if setItem_throws w (setItem_calls w)
          then r = Inl (TodoError STORAGE_ERROR ''Failed to persist todos'')
             \<and> localStorage w' = localStorage w
             \<and> listChanged_calls w' = listChanged_calls w
             \<and> operation_calls w' = operation_calls w
          else (\<exists>json. localStorage w' = (localStorage w)(LOCAL_STORAGE_KEY \<mapsto> Json_array json)
                       \<and> map j_id json = map (\<lambda>t. Some (id' t)) (todos s'))
             \<and> listChanged_calls w' =
                 (if onTodoListChanged s then listChanged_calls w @ [todos s']
                  else listChanged_calls w)
             \<and> (if onTodoListChanged s \<and> listChanged_throws w (length (listChanged_calls w))
                then r = Inl (TodoError STORAGE_ERROR ''Failed to persist todos'')
                   \<and> operation_calls w' = operation_calls w
                else if \<not> onTodoOperation s
                then r = Inr (length removed) \<and> operation_calls w' = operation_calls w
                else ((\<forall>j < length removed.
                          operation_throws w (length (operation_calls w) + j) = None)
                      \<and> r = Inr (length removed)
                      \<and> operation_calls w' =
                          operation_calls w @ map (\<lambda>t. (t, ''delete'')) removed)
                   \<or> (\<exists>j e. j < length removed
                          \<and> (\<forall>k < j. operation_throws w (length (operation_calls w) + k) = None)
                          \<and> operation_throws w (length (operation_calls w) + j) = Some e
                          \<and> r = Inl e
                          \<and> operation_calls w' =
                              operation_calls w
                              @ map (\<lambda>t. (t, ''delete'')) (take (Suc j) removed))))
       \<and> clearCompleted s w = deleteMultipleTodos (map id' (filter complete (todos s))) s w"
proof -
  let ?keep = "filter (\<lambda>t. id' t \<notin> set ids) (todos s)"
  let ?s1 = "s\<lparr>todos := ?keep\<rparr>"
  let ?c = "commit ?keep ?s1 w"
  let ?wc = "snd (snd ?c)"
  let ?n = "forEach_notifyOperation removed ''delete'' ?s1 ?wc"
  have r: "r = (case fst ?c of Inl e \<Rightarrow> Inl e
                | Inr u \<Rightarrow> (case fst ?n of Inl e \<Rightarrow> Inl e
                            | Inr u \<Rightarrow> Inr (length (todos s) - length ?keep)))"
    and s': "s' = ?s1"
    and w': "w' = (case fst ?c of Inl e \<Rightarrow> ?wc | Inr u \<Rightarrow> snd ?n)"
    using assms(1)
    by (auto simp: deleteMultipleTodos_def Let_def case_prod_beta commit_service assms(2)
        split: sum.splits)
  have cc: "clearCompleted s w = deleteMultipleTodos (map id' (filter complete (todos s))) s w"
    by (simp add: clearCompleted_def)
  have keep: "todos s' = ?keep"
    by (simp add: s')
  have count: "length (todos s) - length (todos s') = length removed"
    unfolding assms(2) keep by (rule removed_count)
  have calls: "setItem_calls w' = Suc (setItem_calls w)"
  proof (cases "fst ?c")
    case (Inl e)
    then show ?thesis unfolding w' by (simp add: commit_frame)
  next
    case (Inr u)
    show ?thesis
    proof (cases "onTodoOperation s")
      case False
      then show ?thesis
        unfolding w' using Inr by (simp add: forEach_notifyOperation_unbound commit_frame)
    next
      case True
      show ?thesis
      proof (cases "\<forall>j < length removed. operation_throws ?wc (length (operation_calls ?wc) + j) = None")
        case all: True
        from True have "onTodoOperation ?s1" by simp
        from forEach_notifyOperation_returns [OF this all] Inr show ?thesis
          unfolding w' by (simp add: commit_frame)
      next
        case False
        from first_throw [OF this] obtain j e where "j < length removed"
          "\<forall>k < j. operation_throws ?wc (length (operation_calls ?wc) + k) = None"
          "operation_throws ?wc (length (operation_calls ?wc) + j) = Some e" by blast
        from forEach_notifyOperation_throws [OF _ this, of ?s1 "''delete''"] True Inr
        show ?thesis
          unfolding w' by (simp add: commit_frame)
      qed
    qed
  qed
  have main: "if setItem_throws w (setItem_calls w)
          then r = Inl (TodoError STORAGE_ERROR ''Failed to persist todos'')
             \<and> localStorage w' = localStorage w
             \<and> listChanged_calls w' = listChanged_calls w
             \<and> operation_calls w' = operation_calls w
          else (\<exists>json. localStorage w' = (localStorage w)(LOCAL_STORAGE_KEY \<mapsto> Json_array json)
                       \<and> map j_id json = map (\<lambda>t. Some (id' t)) (todos s'))
             \<and> listChanged_calls w' =
                 (if onTodoListChanged s then listChanged_calls w @ [todos s']
                  else listChanged_calls w)
             \<and> (if onTodoListChanged s \<and> listChanged_throws w (length (listChanged_calls w))
                then r = Inl (TodoError STORAGE_ERROR ''Failed to persist todos'')
                   \<and> operation_calls w' = operation_calls w
                else if \<not> onTodoOperation s
                then r = Inr (length removed) \<and> operation_calls w' = operation_calls w
                else ((\<forall>j < length removed.
                          operation_throws w (length (operation_calls w) + j) = None)
                      \<and> r = Inr (length removed)
                      \<and> operation_calls w' =
                          operation_calls w @ map (\<lambda>t. (t, ''delete'')) removed)
                   \<or> (\<exists>j e. j < length removed
                          \<and> (\<forall>k < j. operation_throws w (length (operation_calls w) + k) = None)
                          \<and> operation_throws w (length (operation_calls w) + j) = Some e
                          \<and> r = Inl e
                          \<and> operation_calls w' =
                              operation_calls w
                              @ map (\<lambda>t. (t, ''delete'')) (take (Suc j) removed)))"
  proof (cases "setItem_throws w (setItem_calls w)")
    case True
    then show ?thesis
      unfolding keep r w' by (simp add: commit_result commit_effects commit_frame)
  next
    case writes: False
    have stored: "\<exists>json. localStorage ?wc = (localStorage w)(LOCAL_STORAGE_KEY \<mapsto> Json_array json)
                       \<and> map j_id json = map (\<lambda>t. Some (id' t)) ?keep"
      using writes
      by (intro exI [of _ "fst (stringify ?keep w)"]) (simp add: commit_effects stringify_items)
    have heard: "listChanged_calls ?wc =
                 (if onTodoListChanged s then listChanged_calls w @ [?keep]
                  else listChanged_calls w)"
      using writes by (simp add: commit_effects)
    show ?thesis
    proof (cases "onTodoListChanged s \<and> listChanged_throws w (length (listChanged_calls w))")
      case True
      then have "fst ?c = Inl (TodoError STORAGE_ERROR ''Failed to persist todos'')"
        by (simp add: commit_result)
      with writes True stored heard show ?thesis
        unfolding keep r w' by (simp add: commit_frame)
    next
      case False
      then have listens: "(onTodoListChanged s
                             \<and> listChanged_throws w (length (listChanged_calls w))) = False"
        by simp
      with writes have ok: "fst ?c = Inr ()"
        by (simp add: commit_result)
      show ?thesis
      proof (cases "onTodoOperation s")
        case False
        then have "?n = (Inr (), ?wc)"
          by (simp add: forEach_notifyOperation_unbound)
        with writes False ok stored heard count [unfolded keep] show ?thesis
          unfolding keep r w' by (simp add: commit_frame listens)
      next
        case True
        then have bound: "onTodoOperation ?s1" by simp
        show ?thesis
        proof (cases "\<forall>j < length removed. operation_throws w (length (operation_calls w) + j) = None")
          case all: True
          then have "\<forall>j < length removed. operation_throws ?wc (length (operation_calls ?wc) + j) = None"
            by (simp add: commit_frame)
          from forEach_notifyOperation_returns [OF bound this, of "''delete''"]
          have "?n = (Inr (), ?wc\<lparr>operation_calls := operation_calls ?wc @ map (\<lambda>t. (t, ''delete'')) removed\<rparr>)" .
          with writes True ok stored heard count [unfolded keep] all show ?thesis
            unfolding keep r w' by (simp add: commit_frame listens)
        next
          case False
          from first_throw [OF this] obtain j e where j: "j < length removed"
            "\<forall>k < j. operation_throws w (length (operation_calls w) + k) = None"
            "operation_throws w (length (operation_calls w) + j) = Some e" by blast
          then have "\<forall>k < j. operation_throws ?wc (length (operation_calls ?wc) + k) = None"
            "operation_throws ?wc (length (operation_calls ?wc) + j) = Some e"
            by (simp_all add: commit_frame)
          from forEach_notifyOperation_throws [OF bound j(1) this, of "''delete''"]
          have n: "?n = (Inl e, ?wc\<lparr>operation_calls := operation_calls ?wc
                              @ map (\<lambda>t. (t, ''delete'')) (take (Suc j) removed)\<rparr>)" .
          have "\<exists>j e. j < length removed
                          \<and> (\<forall>k < j. operation_throws w (length (operation_calls w) + k) = None)
                          \<and> operation_throws w (length (operation_calls w) + j) = Some e
                          \<and> r = Inl e
                          \<and> operation_calls w' =
                              operation_calls w
                              @ map (\<lambda>t. (t, ''delete'')) (take (Suc j) removed)"
            using j n ok unfolding keep r w'
            by (intro exI [of _ j] exI [of _ e]) (simp add: commit_frame)
          moreover have "localStorage w' = localStorage ?wc" "listChanged_calls w' = listChanged_calls ?wc"
            using n ok unfolding w' by simp_all
          ultimately show ?thesis
            using writes True stored heard by (simp add: listens keep)
        qed
      qed
    qed
  qed
  show ?thesis
    by (intro conjI; (rule calls keep count main cc))
qed

lemma sample_items:
  "id' milk = ''a''" "id' bank = ''b''" "complete milk = False" "complete bank = False"
  by (simp_all add: milk_def bank_def)

theorem deleteMultipleTodos_commits_once_witness:
  "fst (deleteMultipleTodos [''zz''] sample_service sample_world) = Inr 0
   \<and> setItem_calls (snd (snd (deleteMultipleTodos [''zz''] sample_service sample_world))) = 1
   \<and> listChanged_calls (snd (snd (deleteMultipleTodos [''zz''] sample_service sample_world)))
       = [[milk, bank]]
   \<and> fst (deleteMultipleTodos [''a''] sample_service sample_world) = Inr 1
   \<and> operation_calls (snd (snd (deleteMultipleTodos [''a''] sample_service sample_world)))
       = [(milk, ''delete'')]
   \<and> fst (deleteMultipleTodos [''a''] sample_service failing_listener_world)
       = Inl (TodoError STORAGE_ERROR ''Failed to persist todos'')
   \<and> listChanged_calls (snd (snd (deleteMultipleTodos [''a''] sample_service failing_listener_world)))
       = [[bank]]
   \<and> operation_calls (snd (snd (deleteMultipleTodos [''a''] sample_service failing_listener_world)))
       = []
   \<and> fst (deleteMultipleTodos [''a'', ''b''] sample_service failing_observer_world)
       = Inl (Error ''observer'')
   \<and> operation_calls
         (snd (snd (deleteMultipleTodos [''a'', ''b''] sample_service failing_observer_world)))
       = [(milk, ''delete'')]"
proof -
  have first: "(\<forall>k. \<not> k < j) = (j = 0)" for j :: nat
    by auto
  have a: "fst (deleteMultipleTodos [''zz''] sample_service sample_world) = Inr 0
   \<and> setItem_calls (snd (snd (deleteMultipleTodos [''zz''] sample_service sample_world))) = 1
   \<and> listChanged_calls (snd (snd (deleteMultipleTodos [''zz''] sample_service sample_world)))
       = [[milk, bank]]"
    using deleteMultipleTodos_commits_once [OF triple_collapse, of "[]" "[''zz'']" sample_service
        sample_world]
    by (simp add: sample_service_fields sample_world_fields sample_items)
  have b: "fst (deleteMultipleTodos [''a''] sample_service sample_world) = Inr 1
   \<and> operation_calls (snd (snd (deleteMultipleTodos [''a''] sample_service sample_world)))
       = [(milk, ''delete'')]"
    using deleteMultipleTodos_commits_once [OF triple_collapse, of "[milk]" "[''a'']"
        sample_service sample_world]
    by (simp add: sample_service_fields sample_world_fields sample_items)
  have c: "fst (deleteMultipleTodos [''a''] sample_service failing_listener_world)
       = Inl (TodoError STORAGE_ERROR ''Failed to persist todos'')
   \<and> listChanged_calls (snd (snd (deleteMultipleTodos [''a''] sample_service failing_listener_world)))
       = [[bank]]
   \<and> operation_calls (snd (snd (deleteMultipleTodos [''a''] sample_service failing_listener_world)))
       = []"
    using deleteMultipleTodos_commits_once [OF triple_collapse, of "[milk]" "[''a'']"
        sample_service failing_listener_world]
    by (simp add: sample_service_fields failing_listener_fields sample_items)
  have d: "fst (deleteMultipleTodos [''a'', ''b''] sample_service failing_observer_world)
       = Inl (Error ''observer'')
   \<and> operation_calls
         (snd (snd (deleteMultipleTodos [''a'', ''b''] sample_service failing_observer_world)))
       = [(milk, ''delete'')]"
    using deleteMultipleTodos_commits_once [OF triple_collapse, of "[milk, bank]" "[''a'', ''b'']"
        sample_service failing_observer_world]
    by (auto simp: sample_service_fields failing_observer_fields sample_items first)
  from a b c d show ?thesis
    by simp
qed

theorem deleteMultipleTodos_storage_failure:
  "fst (deleteMultipleTodos [''a''] sample_service full_storage_world)
     = Inl (TodoError STORAGE_ERROR ''Failed to persist todos'')
   \<and> todos (fst (snd (deleteMultipleTodos [''a''] sample_service full_storage_world))) = [bank]
   \<and> onTodoListChanged sample_service
   \<and> listChanged_calls (snd (snd (deleteMultipleTodos [''a''] sample_service full_storage_world)))
       = []
   \<and> onTodoOperation sample_service
   \<and> operation_calls (snd (snd (deleteMultipleTodos [''a''] sample_service full_storage_world)))
       = []"
  by (simp add: deleteMultipleTodos_def Let_def case_prod_beta commit_service commit_result
      commit_effects commit_frame sample_defs)

section \<open>Import and restore\<close>

lemma map_Todo_new_frame:
  assumes "map_Todo_new js w = (r, w1)"
  shows "setItem_throws w1 = setItem_throws w \<and> setItem_calls w1 = setItem_calls w
       \<and> localStorage w1 = localStorage w \<and> listChanged_calls w1 = listChanged_calls w
       \<and> operation_calls w1 = operation_calls w \<and> uuids w1 = uuids w \<and> times w1 = times w
       \<and> listChanged_throws w1 = listChanged_throws w
       \<and> operation_throws w1 = operation_throws w"
  using assms
proof (induction js arbitrary: w r w1)
  case Nil
  then show ?case by simp
next
  case (Cons j js)
  obtain c wa where new: "Todo_new (as_ITodoData j) w = (c, wa)"
    by (cases "Todo_new (as_ITodoData j) w")
  note fr = Todo_new_frame [OF new]
  show ?case
  proof (cases c)
    case (Inl e)
    with Cons.prems new fr show ?thesis by simp
  next
    case (Inr t)
    obtain rs wb where rest: "map_Todo_new js wa = (rs, wb)"
      by (cases "map_Todo_new js wa")
    from Cons.prems new Inr rest have "w1 = wb" by simp
    with Cons.IH [OF rest] fr show ?thesis by simp
  qed
qed

lemma validateTodo_result:
  "fst (validateTodo t w) =
     (id' t \<noteq> [] \<and> trim (text' t) \<noteq> [] \<and> length (trim (text' t)) \<le> MAX_TEXT_LENGTH
      \<and> (case dueDate t of None \<Rightarrow> True | Some d \<Rightarrow> \<not> isNaN_getTime d))"
proof (cases "id' t = [] \<or> text' t = []")
  case True
  then show ?thesis by (auto simp: validateTodo_def)
next
  case False
  from validateTodoText_cases [of "text' t" w] validateTodoText_accepts [of "text' t" w] False
  show ?thesis
    by (auto simp: validateTodo_def split: option.splits)
qed

lemma validateTodo_world:
  "snd (validateTodo t w) = w \<or> snd (validateTodo t w) = w\<lparr>time_reads := Suc (time_reads w)\<rparr>"
  using validateTodoText_cases [of "text' t" w]
  by (auto simp: validateTodo_def split: option.splits)

lemma filter_validateTodo_result:
  "fst (filter_validateTodo ts w) = filter (\<lambda>t. fst (validateTodo t w0)) ts"
proof (induction ts arbitrary: w)
  case Nil
  then show ?case by simp
next
  case (Cons t ts)
  have "fst (validateTodo t w) = fst (validateTodo t w0)"
    by (simp only: validateTodo_result)
  with Cons show ?case by (simp add: case_prod_beta)
qed

lemma filter_validateTodo_frame:
  "setItem_throws (snd (filter_validateTodo ts w)) = setItem_throws w
   \<and> setItem_calls (snd (filter_validateTodo ts w)) = setItem_calls w
   \<and> localStorage (snd (filter_validateTodo ts w)) = localStorage w
   \<and> listChanged_calls (snd (filter_validateTodo ts w)) = listChanged_calls w
   \<and> listChanged_throws (snd (filter_validateTodo ts w)) = listChanged_throws w
   \<and> operation_calls (snd (filter_validateTodo ts w)) = operation_calls w
   \<and> operation_throws (snd (filter_validateTodo ts w)) = operation_throws w"
proof (induction ts arbitrary: w)
  case Nil
  then show ?case by simp
next
  case (Cons t ts)
  from validateTodo_world [of t w] Cons [of "snd (validateTodo t w)"] show ?case
    by (auto simp: case_prod_beta)
qed

lemma importTodos_constructed:
  assumes "map_Todo_new entries w = (Inr imported, w1)"
    and "valid = filter (\<lambda>t. fst (validateTodo t w)) imported"
    and "s1 = s\<lparr>todos := todos s @ valid\<rparr>"
    and "c = commit (todos s @ valid) s1 (snd (filter_validateTodo imported w1))"
  shows "importTodos (Json_object v stamp (Some entries)) s w =
           (if setItem_throws w (setItem_calls w)
               \<or> (onTodoListChanged s \<and> listChanged_throws w (length (listChanged_calls w)))
            then Inl (TodoError STORAGE_ERROR ''Failed to persist todos'')
            else Inr (length valid),
            s1, snd (snd c))"
    and "setItem_calls (snd (snd c)) = Suc (setItem_calls w)"
    and "localStorage (snd (snd c)) =
           (if setItem_throws w (setItem_calls w) then localStorage w
            else (localStorage w)(LOCAL_STORAGE_KEY \<mapsto>
                   Json_array (fst (stringify (todos s @ valid)
                                      (snd (filter_validateTodo imported w1))))))"
    and "listChanged_calls (snd (snd c)) =
           (if \<not> setItem_throws w (setItem_calls w) \<and> onTodoListChanged s
            then listChanged_calls w @ [todos s @ valid] else listChanged_calls w)"
proof -
  note fr = map_Todo_new_frame [OF assms(1)]
  note ff = filter_validateTodo_frame [of imported w1]
  have v: "fst (filter_validateTodo imported w1) = valid"
    unfolding assms(2) by (rule filter_validateTodo_result)
  have bound: "onTodoListChanged s1 = onTodoListChanged s"
    by (simp add: assms(3))
  have r: "fst c =
             (if setItem_throws w (setItem_calls w)
                 \<or> (onTodoListChanged s \<and> listChanged_throws w (length (listChanged_calls w)))
              then Inl (TodoError STORAGE_ERROR ''Failed to persist todos'') else Inr ())"
    unfolding assms(4) by (simp add: commit_result fr ff bound)
  have s: "fst (snd c) = s1"
    unfolding assms(4) by (simp add: commit_service assms(3))
  show "importTodos (Json_object v stamp (Some entries)) s w =
           (if setItem_throws w (setItem_calls w)
               \<or> (onTodoListChanged s \<and> listChanged_throws w (length (listChanged_calls w)))
            then Inl (TodoError STORAGE_ERROR ''Failed to persist todos'')
            else Inr (length valid),
            s1, snd (snd c))"
  proof -
    have c': "commit (todos s @ valid) (s\<lparr>todos := todos s @ valid\<rparr>)
                (snd (filter_validateTodo imported w1)) = (fst c, s1, snd (snd c))"
      using s unfolding assms(3,4) by (simp add: prod_eq_iff)
    show ?thesis
      by (simp add: importTodos_def assms(1) Let_def case_prod_beta v c' r)
  qed
  show "setItem_calls (snd (snd c)) = Suc (setItem_calls w)"
    unfolding assms(4) by (simp add: commit_frame fr ff)
  show "localStorage (snd (snd c)) =
           (if setItem_throws w (setItem_calls w) then localStorage w
            else (localStorage w)(LOCAL_STORAGE_KEY \<mapsto>
                   Json_array (fst (stringify (todos s @ valid)
                                      (snd (filter_validateTodo imported w1))))))"
    unfolding assms(4) by (simp add: commit_effects fr ff)
  show "listChanged_calls (snd (snd c)) =
           (if \<not> setItem_throws w (setItem_calls w) \<and> onTodoListChanged s
            then listChanged_calls w @ [todos s @ valid] else listChanged_calls w)"
    unfolding assms(4) by (simp add: commit_effects fr ff bound)
qed

lemma importTodos_malformed:
  assumes "\<not> (\<exists>v stamp entries imported.
                 data = Json_object v stamp (Some entries)
                 \<and> fst (map_Todo_new entries w) = Inr imported)"
  shows "\<exists>m w1. importTodos data s w = (Inl (TodoError INVALID_DATA m), s, w1)
           \<and> setItem_calls w1 = setItem_calls w \<and> localStorage w1 = localStorage w
           \<and> listChanged_calls w1 = listChanged_calls w"
proof (cases data)
  case (Json_object v stamp entries_opt)
  show ?thesis
  proof (cases entries_opt)
    case None
    with Json_object show ?thesis by (simp add: importTodos_def throw_TodoError_eq)
  next
    case (Some entries)
    obtain c w1 where m: "map_Todo_new entries w = (c, w1)"
      by (cases "map_Todo_new entries w")
    with assms Json_object Some obtain e where "c = Inl e"
      by (cases c) auto
    with m map_Todo_new_frame [OF m] Json_object Some show ?thesis
      by (simp add: importTodos_def throw_TodoError_eq)
  qed
qed (simp_all add: importTodos_def throw_TodoError_eq)

text \<open>
  C9, as the code has it. \<open>restoreFromBackup\<close> empties the collection and imports; the
  items from before the call are gone from memory whatever happens then. When the backup
  is no object with an array of items, or the constructor throws on one of the entries, the
  import fails before its commit: the answer is \<open>false\<close>, the collection is empty, nothing
  was written and no listener was called. Otherwise the collection holds the imported
  items (those that pass \<open>validateTodo\<close>) and one commit was tried. When its write
  throws, the answer is \<open>false\<close>, the storage holds what it held and the change listener
  was not called. When the write is accepted, the storage holds the imported items and a
  registered change listener was called with them; the answer is \<open>false\<close> when that
  listener throws, and \<open>true\<close> otherwise.
\<close>

theorem restoreFromBackup_failure:
  assumes "restoreFromBackup backup s w = (ok, s', w')"
  shows "(\<not> (\<exists>v stamp entries imported.
              backup = Json_object v stamp (Some entries)
              \<and> fst (map_Todo_new entries w) = Inr imported)
          \<and> \<not> ok \<and> todos s' = []
          \<and> setItem_calls w' = setItem_calls w \<and> localStorage w' = localStorage w
          \<and> listChanged_calls w' = listChanged_calls w)
       \<or> (\<exists>v stamp entries imported.
              backup = Json_object v stamp (Some entries)
              \<and> fst (map_Todo_new entries w) = Inr imported
              \<and> todos s' = filter (\<lambda>t. fst (validateTodo t w)) imported
              \<and> setItem_calls w' = Suc (setItem_calls w)
              \<and> (if setItem_throws w (setItem_calls w)
                 then \<not> ok \<and> localStorage w' = localStorage w
                    \<and> listChanged_calls w' = listChanged_calls w
                 else ok = (\<not> (onTodoListChanged s
                                \<and> listChanged_throws w (length (listChanged_calls w))))
                    \<and> (\<exists>json. localStorage w' =
                                  (localStorage w)(LOCAL_STORAGE_KEY \<mapsto> Json_array json)
                               \<and> map j_id json = map (\<lambda>t. Some (id' t)) (todos s'))
                    \<and> listChanged_calls w' =
                        (if onTodoListChanged s then listChanged_calls w @ [todos s']
                         else listChanged_calls w)))"
proof (cases "\<exists>v stamp entries imported.
                 backup = Json_object v stamp (Some entries)
                 \<and> fst (map_Todo_new entries w) = Inr imported")
  case False
  from importTodos_malformed [OF False, of "s\<lparr>todos := []\<rparr>"] obtain m w1
    where "importTodos backup (s\<lparr>todos := []\<rparr>) w = (Inl (TodoError INVALID_DATA m), s\<lparr>todos := []\<rparr>, w1)"
      and "setItem_calls w1 = setItem_calls w" "localStorage w1 = localStorage w"
      "listChanged_calls w1 = listChanged_calls w" by blast
  with assms have "\<not> ok \<and> todos s' = []
          \<and> setItem_calls w' = setItem_calls w \<and> localStorage w' = localStorage w
          \<and> listChanged_calls w' = listChanged_calls w"
    by (auto simp: restoreFromBackup_def Let_def)
  with False show ?thesis by blast
next
  case True
  then obtain v stamp entries imported
    where shape: "backup = Json_object v stamp (Some entries)"
      and made: "fst (map_Todo_new entries w) = Inr imported" by blast
  obtain w1 where m: "map_Todo_new entries w = (Inr imported, w1)"
    using made by (cases "map_Todo_new entries w") simp
  let ?s0 = "s\<lparr>todos := []\<rparr>"
  let ?valid = "filter (\<lambda>t. fst (validateTodo t w)) imported"
  let ?s1 = "?s0\<lparr>todos := todos ?s0 @ ?valid\<rparr>"
  let ?c = "commit (todos ?s0 @ ?valid) ?s1 (snd (filter_validateTodo imported w1))"
  note imp1 = importTodos_constructed(1) [OF m refl refl refl, where s = ?s0 and v = v
      and stamp = stamp]
  note imp = importTodos_constructed(2-4) [OF m refl refl refl, where s = ?s0]
  have ok: "ok = (\<not> (setItem_throws w (setItem_calls w)
                       \<or> (onTodoListChanged s \<and> listChanged_throws w (length (listChanged_calls w)))))"
    and s': "s' = ?s1" and w': "w' = snd (snd ?c)"
    using assms unfolding restoreFromBackup_def shape Let_def imp1
    by (auto split: if_splits)
  have keep: "todos s' = ?valid"
    by (simp add: s')
  have calls: "setItem_calls w' = Suc (setItem_calls w)"
    unfolding w' by (rule imp(1))
  have rest: "if setItem_throws w (setItem_calls w)
                 then \<not> ok \<and> localStorage w' = localStorage w
                    \<and> listChanged_calls w' = listChanged_calls w
                 else ok = (\<not> (onTodoListChanged s
                                \<and> listChanged_throws w (length (listChanged_calls w))))
                    \<and> (\<exists>json. localStorage w' =
                                  (localStorage w)(LOCAL_STORAGE_KEY \<mapsto> Json_array json)
                               \<and> map j_id json = map (\<lambda>t. Some (id' t)) (todos s'))
                    \<and> listChanged_calls w' =
                        (if onTodoListChanged s then listChanged_calls w @ [todos s']
                         else listChanged_calls w)"
  proof (cases "setItem_throws w (setItem_calls w)")
    case True
    then show ?thesis
      unfolding w' imp(2,3) by (simp add: ok)
  next
    case False
    have "\<exists>json. localStorage w' = (localStorage w)(LOCAL_STORAGE_KEY \<mapsto> Json_array json)
                 \<and> map j_id json = map (\<lambda>t. Some (id' t)) (todos s')"
      unfolding w' imp(2) keep using False
      by (intro exI [of _ "fst (stringify ?valid (snd (filter_validateTodo imported w1)))"])
         (simp add: stringify_items)
    moreover have "listChanged_calls w' =
                        (if onTodoListChanged s then listChanged_calls w @ [todos s']
                         else listChanged_calls w)"
      unfolding w' imp(3) keep using False by simp
    ultimately show ?thesis
      using False by (simp add: ok)
  qed
  have "backup = Json_object v stamp (Some entries)
              \<and> fst (map_Todo_new entries w) = Inr imported
              \<and> todos s' = filter (\<lambda>t. fst (validateTodo t w)) imported
              \<and> setItem_calls w' = Suc (setItem_calls w)
              \<and> (if setItem_throws w (setItem_calls w)
                 then \<not> ok \<and> localStorage w' = localStorage w
                    \<and> listChanged_calls w' = listChanged_calls w
                 else ok = (\<not> (onTodoListChanged s
                                \<and> listChanged_throws w (length (listChanged_calls w))))
                    \<and> (\<exists>json. localStorage w' =
                                  (localStorage w)(LOCAL_STORAGE_KEY \<mapsto> Json_array json)
                               \<and> map j_id json = map (\<lambda>t. Some (id' t)) (todos s'))
                    \<and> listChanged_calls w' =
                        (if onTodoListChanged s then listChanged_calls w @ [todos s']
                         else listChanged_calls w))"
    by (intro conjI; (rule shape made keep calls rest))
  then show ?thesis by blast
qed

lemma full_storage_fields:
  "setItem_throws full_storage_world n" "setItem_calls full_storage_world = 0"
  "localStorage full_storage_world = Map.empty" "listChanged_calls full_storage_world = []"
  by (simp_all add: full_storage_world_def sample_world_def)

lemma import_milk:
  "fst (map_Todo_new [milk_json] sample_world) =
     Inr [milk\<lparr>id' := ''fresh-'', createdAt := Time 1000, updatedAt := Time 1001\<rparr>]"
  "fst (map_Todo_new [milk_json] full_storage_world) =
     Inr [milk\<lparr>id' := ''fresh-'', createdAt := Time 1000, updatedAt := Time 1001\<rparr>]"
  "fst (map_Todo_new [milk_json] failing_listener_world) =
     Inr [milk\<lparr>id' := ''fresh-'', createdAt := Time 1000, updatedAt := Time 1001\<rparr>]"
  by (simp_all add: milk_json_def sample_defs failing_listener_world_def entity_defs enum_defs
      Let_def)

lemma imported_milk_passes:
  "fst (validateTodo (milk\<lparr>id' := ''fresh-'', createdAt := Time 1000, updatedAt := Time 1001\<rparr>) w)"
  by (simp add: validateTodo_result milk_def MAX_TEXT_LENGTH_def trim_def isWhiteSpace_def)

theorem restoreFromBackup_keeps_imported_items:
  "fst (restoreFromBackup sample_backup sample_service full_storage_world) = False
   \<and> todos (fst (snd (restoreFromBackup sample_backup sample_service full_storage_world)))
       = [milk\<lparr>id' := ''fresh-'', createdAt := Time 1000, updatedAt := Time 1001\<rparr>]
   \<and> todos (fst (snd (restoreFromBackup sample_backup sample_service full_storage_world))) \<noteq> []"
proof -
  let ?t = "milk\<lparr>id' := ''fresh-'', createdAt := Time 1000, updatedAt := Time 1001\<rparr>"
  have m: "map_Todo_new [milk_json] full_storage_world =
             (Inr [?t], snd (map_Todo_new [milk_json] full_storage_world))"
    by (simp add: prod_eq_iff import_milk del: map_Todo_new.simps)
  show ?thesis
    unfolding restoreFromBackup_def sample_backup_def Let_def
      importTodos_constructed(1) [OF m refl refl refl]
    by (simp add: full_storage_fields imported_milk_passes)
qed

theorem restoreFromBackup_failure_witness:
  "fst (restoreFromBackup Unparseable sample_service sample_world) = False
   \<and> todos (fst (snd (restoreFromBackup Unparseable sample_service sample_world))) = []
   \<and> localStorage (snd (snd (restoreFromBackup Unparseable sample_service sample_world)))
       = localStorage sample_world
   \<and> fst (restoreFromBackup sample_backup sample_service full_storage_world) = False
   \<and> map id' (todos (fst (snd (restoreFromBackup sample_backup sample_service full_storage_world))))
       = [''fresh-'']
   \<and> localStorage (snd (snd (restoreFromBackup sample_backup sample_service full_storage_world)))
       = localStorage full_storage_world
   \<and> listChanged_calls
        (snd (snd (restoreFromBackup sample_backup sample_service full_storage_world))) = []
   \<and> fst (restoreFromBackup sample_backup sample_service failing_listener_world) = False
   \<and> map id' (todos (fst (snd (restoreFromBackup sample_backup sample_service
                                   failing_listener_world))))
       = [''fresh-'']
   \<and> (\<exists>json. localStorage (snd (snd (restoreFromBackup sample_backup sample_service
                                         failing_listener_world))) LOCAL_STORAGE_KEY
                = Some (Json_array json)
              \<and> map j_id json = [Some ''fresh-''])
   \<and> map (map id')
        (listChanged_calls
           (snd (snd (restoreFromBackup sample_backup sample_service failing_listener_world))))
       = [[''fresh-'']]
   \<and> fst (restoreFromBackup sample_backup sample_service sample_world) = True"
proof -
  let ?t = "milk\<lparr>id' := ''fresh-'', createdAt := Time 1000, updatedAt := Time 1001\<rparr>"
  have t: "id' ?t = ''fresh-''"
    by simp
  have a: "fst (restoreFromBackup Unparseable sample_service sample_world) = False
   \<and> todos (fst (snd (restoreFromBackup Unparseable sample_service sample_world))) = []
   \<and> localStorage (snd (snd (restoreFromBackup Unparseable sample_service sample_world)))
       = localStorage sample_world"
    using restoreFromBackup_failure [OF triple_collapse, where backup = Unparseable
        and s = sample_service and w = sample_world]
    by simp
  have b: "fst (restoreFromBackup sample_backup sample_service full_storage_world) = False
   \<and> todos (fst (snd (restoreFromBackup sample_backup sample_service full_storage_world)))
       = [?t]
   \<and> localStorage (snd (snd (restoreFromBackup sample_backup sample_service full_storage_world)))
       = localStorage full_storage_world
   \<and> listChanged_calls
        (snd (snd (restoreFromBackup sample_backup sample_service full_storage_world))) = []"
    using restoreFromBackup_failure [OF triple_collapse, where backup = sample_backup
        and s = sample_service and w = full_storage_world]
    by (simp add: sample_backup_def import_milk imported_milk_passes full_storage_fields
        del: map_Todo_new.simps)
  have c: "fst (restoreFromBackup sample_backup sample_service failing_listener_world) = False
   \<and> todos (fst (snd (restoreFromBackup sample_backup sample_service failing_listener_world)))
       = [?t]
   \<and> (\<exists>json. localStorage (snd (snd (restoreFromBackup sample_backup sample_service
                                         failing_listener_world))) LOCAL_STORAGE_KEY
                = Some (Json_array json)
              \<and> map j_id json = [Some ''fresh-''])
   \<and> listChanged_calls
        (snd (snd (restoreFromBackup sample_backup sample_service failing_listener_world)))
       = [[?t]]"
    using restoreFromBackup_failure [OF triple_collapse, where backup = sample_backup
        and s = sample_service and w = failing_listener_world]
    by (auto simp: sample_backup_def import_milk imported_milk_passes failing_listener_fields
        sample_service_fields simp del: map_Todo_new.simps)
  have d: "fst (restoreFromBackup sample_backup sample_service sample_world) = True"
    using restoreFromBackup_failure [OF triple_collapse, where backup = sample_backup
        and s = sample_service and w = sample_world]
    by (simp add: sample_backup_def import_milk imported_milk_passes sample_world_fields
        sample_service_fields del: map_Todo_new.simps)
  from a b c d show ?thesis
    by (simp add: t)
qed

section \<open>Statistics\<close>

lemma isOverdue_steady:
  assumes "\<And>k. times w (time_reads w + k) = now"
  shows "fst (isOverdue t w) =
           (case dueDate t of None \<Rightarrow> False | Some d \<Rightarrow> date_lt d (Time now) \<and> \<not> complete t)"
    and "times (snd (isOverdue t w)) (time_reads (snd (isOverdue t w)) + k) = now"
  using assms [of 0] assms [of "Suc k"] assms [of k]
  by (simp_all add: isOverdue_def new_Date_def date_gt_def case_prod_beta split: option.splits)

lemma increment_status:
  assumes "x \<in> set TodoStatus_values"
  shows "increment x [(PENDING, Num a), (COMPLETED, Num b), (ARCHIVED, Num c)] =
           [(PENDING, Num (a + (if x = PENDING then 1 else 0))),
            (COMPLETED, Num (b + (if x = COMPLETED then 1 else 0))),
            (ARCHIVED, Num (c + (if x = ARCHIVED then 1 else 0)))]"
  using assms by (auto simp: increment_def enum_defs)

lemma increment_priority:
  assumes "x \<in> set TodoPriority_values"
  shows "increment x [(LOW, Num a), (MEDIUM, Num b), (HIGH, Num c), (CRITICAL, Num d)] =
           [(LOW, Num (a + (if x = LOW then 1 else 0))),
            (MEDIUM, Num (b + (if x = MEDIUM then 1 else 0))),
            (HIGH, Num (c + (if x = HIGH then 1 else 0))),
            (CRITICAL, Num (d + (if x = CRITICAL then 1 else 0)))]"
  using assms by (auto simp: increment_def enum_defs)

lemma forEach_stats_counts:
  assumes "\<And>k. times w (time_reads w + k) = now"
    and "\<forall>t \<in> set ts. status t \<in> set TodoStatus_values \<and> priority t \<in> set TodoPriority_values"
    and "byStatus st = [(PENDING, Num a), (COMPLETED, Num b), (ARCHIVED, Num c)]"
    and "byPriority st = [(LOW, Num d), (MEDIUM, Num e), (HIGH, Num f), (CRITICAL, Num g)]"
  shows "fst (forEach_stats ts st w) =
           st\<lparr>completed := completed st + length (filter complete ts),
              pending := pending st + length (filter isPending ts),
              overdue := overdue st
                + length (filter (\<lambda>t. case dueDate t of None \<Rightarrow> False
                                       | Some x \<Rightarrow> date_lt x (Time now) \<and> \<not> complete t) ts),
              byStatus :=
                [(PENDING, Num (a + length (filter (\<lambda>t. status t = PENDING) ts))),
                 (COMPLETED, Num (b + length (filter (\<lambda>t. status t = COMPLETED) ts))),
                 (ARCHIVED, Num (c + length (filter (\<lambda>t. status t = ARCHIVED) ts)))],
              byPriority :=
                [(LOW, Num (d + length (filter (\<lambda>t. priority t = LOW) ts))),
                 (MEDIUM, Num (e + length (filter (\<lambda>t. priority t = MEDIUM) ts))),
                 (HIGH, Num (f + length (filter (\<lambda>t. priority t = HIGH) ts))),
                 (CRITICAL, Num (g + length (filter (\<lambda>t. priority t = CRITICAL) ts)))]\<rparr>"
  using assms
proof (induction ts arbitrary: st w a b c d e f g)
  case Nil
  then show ?case by simp
next
  case (Cons t ts)
  let ?st1 = "fst (stats_step t st w)"
  let ?w1 = "snd (stats_step t st w)"
  have w1: "?w1 = snd (isOverdue t w)"
    by (simp add: stats_step_def Let_def case_prod_beta)
  have steady: "\<And>k. times ?w1 (time_reads ?w1 + k) = now"
    unfolding w1 using isOverdue_steady(2) [of w now t] Cons.prems(1) by simp
  have en: "status t \<in> set TodoStatus_values" "priority t \<in> set TodoPriority_values"
    and rest: "\<forall>t \<in> set ts. status t \<in> set TodoStatus_values \<and> priority t \<in> set TodoPriority_values"
    using Cons.prems(2) by simp_all
  have st1: "?st1 =
      st\<lparr>completed := completed st + (if complete t then 1 else 0),
         pending := pending st + (if isPending t then 1 else 0),
         overdue := overdue st
           + (if (case dueDate t of None \<Rightarrow> False
                  | Some x \<Rightarrow> date_lt x (Time now) \<and> \<not> complete t) then 1 else 0),
         byStatus :=
           [(PENDING, Num (a + (if status t = PENDING then 1 else 0))),
            (COMPLETED, Num (b + (if status t = COMPLETED then 1 else 0))),
            (ARCHIVED, Num (c + (if status t = ARCHIVED then 1 else 0)))],
         byPriority :=
           [(LOW, Num (d + (if priority t = LOW then 1 else 0))),
            (MEDIUM, Num (e + (if priority t = MEDIUM then 1 else 0))),
            (HIGH, Num (f + (if priority t = HIGH then 1 else 0))),
            (CRITICAL, Num (g + (if priority t = CRITICAL then 1 else 0)))]\<rparr>"
    using isOverdue_steady(1) [of w now t] Cons.prems(1)
    by (simp add: stats_step_def Let_def case_prod_beta Cons.prems(3,4)
        increment_status [OF en(1)] increment_priority [OF en(2)])
  have "fst (forEach_stats (t # ts) st w) = fst (forEach_stats ts ?st1 ?w1)"
    by (simp add: case_prod_beta)
  also have "\<dots> = ?st1\<lparr>completed := completed ?st1 + length (filter complete ts),
              pending := pending ?st1 + length (filter isPending ts),
              overdue := overdue ?st1
                + length (filter (\<lambda>t. case dueDate t of None \<Rightarrow> False
                                       | Some x \<Rightarrow> date_lt x (Time now) \<and> \<not> complete t) ts),
              byStatus :=
                [(PENDING, Num (a + (if status t = PENDING then 1 else 0) + length (filter (\<lambda>t. status t = PENDING) ts))),
                 (COMPLETED, Num (b + (if status t = COMPLETED then 1 else 0) + length (filter (\<lambda>t. status t = COMPLETED) ts))),
                 (ARCHIVED, Num (c + (if status t = ARCHIVED then 1 else 0) + length (filter (\<lambda>t. status t = ARCHIVED) ts)))],
              byPriority :=
                [(LOW, Num (d + (if priority t = LOW then 1 else 0) + length (filter (\<lambda>t. priority t = LOW) ts))),
                 (MEDIUM, Num (e + (if priority t = MEDIUM then 1 else 0) + length (filter (\<lambda>t. priority t = MEDIUM) ts))),
                 (HIGH, Num (f + (if priority t = HIGH then 1 else 0) + length (filter (\<lambda>t. priority t = HIGH) ts))),
                 (CRITICAL, Num (g + (if priority t = CRITICAL then 1 else 0) + length (filter (\<lambda>t. priority t = CRITICAL) ts)))]\<rparr>"
    by (rule Cons.IH [OF steady rest]) (simp_all add: st1)
  also have "\<dots> = st\<lparr>completed := completed st + length (filter complete (t # ts)),
              pending := pending st + length (filter isPending (t # ts)),
              overdue := overdue st
                + length (filter (\<lambda>t. case dueDate t of None \<Rightarrow> False
                                       | Some x \<Rightarrow> date_lt x (Time now) \<and> \<not> complete t) (t # ts)),
              byStatus :=
                [(PENDING, Num (a + length (filter (\<lambda>t. status t = PENDING) (t # ts)))),
                 (COMPLETED, Num (b + length (filter (\<lambda>t. status t = COMPLETED) (t # ts)))),
                 (ARCHIVED, Num (c + length (filter (\<lambda>t. status t = ARCHIVED) (t # ts))))],
              byPriority :=
                [(LOW, Num (d + length (filter (\<lambda>t. priority t = LOW) (t # ts)))),
                 (MEDIUM, Num (e + length (filter (\<lambda>t. priority t = MEDIUM) (t # ts)))),
                 (HIGH, Num (f + length (filter (\<lambda>t. priority t = HIGH) (t # ts)))),
                 (CRITICAL, Num (g + length (filter (\<lambda>t. priority t = CRITICAL) (t # ts))))]\<rparr>"
    by (simp add: st1)
  finally show ?case .
qed

text \<open>
  C6, as the code has it. For a collection whose statuses and priorities are enumerated
  ones, read while the clock stands at \<open>now\<close>: \<open>total\<close> is the number of items;
  \<open>completed\<close> the number of complete items; \<open>pending\<close> the number of items that are
  \<open>isPending\<close>, that is of status \<open>PENDING\<close> and not complete (not the rest of the
  total); \<open>overdue\<close> the number of items that are not complete and whose due date lies
  before \<open>now\<close>; \<open>byStatus\<close> and \<open>byPriority\<close> hold one count for every enumerated
  value, zero where no item has it.
\<close>

theorem getTodoStatistics_counts:
  assumes "\<forall>k. times w (time_reads w + k) = now"
    and "\<forall>t \<in> set ts. status t \<in> set TodoStatus_values \<and> priority t \<in> set TodoPriority_values"
  shows "fst (getTodoStatistics ts w) =
           \<lparr>total' = length ts,
            completed = length (filter complete ts),
            pending = length (filter (\<lambda>t. status t = PENDING \<and> \<not> complete t) ts),
            overdue =
              length (filter (\<lambda>t. case dueDate t of None \<Rightarrow> False
                                   | Some d \<Rightarrow> date_lt d (Time now) \<and> \<not> complete t) ts),
            byStatus =
              [(PENDING, Num (length (filter (\<lambda>t. status t = PENDING) ts))),
               (COMPLETED, Num (length (filter (\<lambda>t. status t = COMPLETED) ts))),
               (ARCHIVED, Num (length (filter (\<lambda>t. status t = ARCHIVED) ts)))],
            byPriority =
              [(LOW, Num (length (filter (\<lambda>t. priority t = LOW) ts))),
               (MEDIUM, Num (length (filter (\<lambda>t. priority t = MEDIUM) ts))),
               (HIGH, Num (length (filter (\<lambda>t. priority t = HIGH) ts))),
               (CRITICAL, Num (length (filter (\<lambda>t. priority t = CRITICAL) ts)))]\<rparr>"
proof -
  have steady: "\<And>k. times w (time_reads w + k) = now"
    using assms(1) by simp
  have pend: "filter isPending ts = filter (\<lambda>t. status t = PENDING \<and> \<not> complete t) ts"
    by (simp add: isPending_def [abs_def])
  show ?thesis
    unfolding getTodoStatistics_def
    by (subst forEach_stats_counts [OF steady assms(2), where a = 0 and b = 0 and c = 0
          and d = 0 and e = 0 and f = 0 and g = 0])
       (simp_all add: pend)
qed

theorem getTodoStatistics_counts_witness:
  "fst (getTodoStatistics [milk, bank] steady_world) =
     \<lparr>total' = 2, completed = 0, pending = 1, overdue = 1,
      byStatus = [(PENDING, Num 1), (COMPLETED, Num 0), (ARCHIVED, Num 1)],
      byPriority = [(LOW, Num 0), (MEDIUM, Num 1), (HIGH, Num 1), (CRITICAL, Num 0)]\<rparr>"
  using getTodoStatistics_counts [of steady_world 1000 "[milk, bank]"]
  by (simp add: steady_world_def sample_defs enum_defs)

theorem getTodoStatistics_pending_is_not_the_rest:
  "total' (fst (getTodoStatistics [bank] sample_world)) = 1
   \<and> completed (fst (getTodoStatistics [bank] sample_world)) = 0
   \<and> pending (fst (getTodoStatistics [bank] sample_world)) = 0
   \<and> pending (fst (getTodoStatistics [bank] sample_world))
       \<noteq> total' (fst (getTodoStatistics [bank] sample_world))
         - completed (fst (getTodoStatistics [bank] sample_world))"
  by (simp add: getTodoStatistics_def stats_step_def Let_def case_prod_beta isPending_def
      bank_def enum_defs)

section \<open>Identity of an item across an update and an import\<close>

text \<open>
  The entity's own \<open>update\<close> keeps \<open>id\<close> and \<open>createdAt\<close> and refreshes
  \<open>updatedAt\<close>, and \<open>fromJSON\<close> gives back the identity that \<open>toJSON\<close> wrote.
  The service uses neither: \<open>updateTodo\<close> and \<open>importTodos\<close> call the constructor.
\<close>

lemma Todo_update_keeps_identity:
  "id' (fst (Todo_update t u w)) = id' t"
  "createdAt (fst (Todo_update t u w)) = createdAt t"
  "updatedAt (fst (Todo_update t u w)) = Time (times w (time_reads w))"
  by (simp_all add: Todo_update_def Let_def new_Date_def split: partial.splits)

lemma fromJSON_restores_identity:
  assumes "fromJSON (fst (toJSON t w0)) w = (Inr t', w1)"
    and "id' t \<noteq> []" and "createdAt t = Time c" and "updatedAt t = Time u"
  shows "id' t' = id' t \<and> createdAt t' = createdAt t \<and> updatedAt t' = updatedAt t"
  using assms
  by (auto simp: fromJSON_def toJSON_def case_prod_beta split: sum.splits)

lemma Todo_new_identity:
  assumes "Todo_new d w = (Inr t, w1)"
  shows "id' t = uuids w (uuid_calls w)"
    and "createdAt t =
           Time (times w (time_reads w + (case d_dueDate d of None \<Rightarrow> 0 | Some x \<Rightarrow> 1)))"
    and "updatedAt t =
           Time (times w (Suc (time_reads w + (case d_dueDate d of None \<Rightarrow> 0 | Some x \<Rightarrow> 1))))"
    and "uuid_calls w1 = Suc (uuid_calls w)"
    and "time_reads w1 = time_reads w + (case d_dueDate d of None \<Rightarrow> 0 | Some x \<Rightarrow> 1) + 2"
proof -
  note v = Todo_new_valid [OF Todo_new_Inr_valid [OF assms]]
  have t: "t = projr (fst (Todo_new d w))" and w1: "w1 = snd (Todo_new d w)"
    using assms by simp_all
  show "id' t = uuids w (uuid_calls w)"
    and "createdAt t =
           Time (times w (time_reads w + (case d_dueDate d of None \<Rightarrow> 0 | Some x \<Rightarrow> 1)))"
    and "updatedAt t =
           Time (times w (Suc (time_reads w + (case d_dueDate d of None \<Rightarrow> 0 | Some x \<Rightarrow> 1))))"
    and "uuid_calls w1 = Suc (uuid_calls w)"
    and "time_reads w1 = time_reads w + (case d_dueDate d of None \<Rightarrow> 0 | Some x \<Rightarrow> 1) + 2"
    unfolding t w1 v by (simp_all add: validateData_world split: option.splits)
qed

text \<open>
  C1, on the code. A successful \<open>updateTodo\<close> puts in the place of the found item a new
  entity made by the constructor: its id is the next one drawn from the generator, and its
  \<open>createdAt\<close> and \<open>updatedAt\<close> are the next readings of the clock. Neither the id nor
  \<open>createdAt\<close> of the item before the update is kept.
\<close>

theorem updateTodo_mints_new_identity:
  assumes "updateTodo i u s w = (Inr t', s', w')"
  shows "\<exists>todo. findTodoById i s = Some todo
           \<and> id' t' = uuids w (uuid_calls w)
           \<and> createdAt t' =
               Time (times w (time_reads w
                  + (case d_dueDate (spread_data todo u) of None \<Rightarrow> 0 | Some x \<Rightarrow> 1)))
           \<and> updatedAt t' =
               Time (times w (Suc (time_reads w
                  + (case d_dueDate (spread_data todo u) of None \<Rightarrow> 0 | Some x \<Rightarrow> 1))))
           \<and> todos s' = map (\<lambda>t. if id' t = i then t' else t) (todos s)"
proof (cases "findTodoById i s")
  case None
  with assms show ?thesis by (simp add: updateTodo_not_found)
next
  case (Some todo)
  have no_throw: "(case u_text u of Value x \<Rightarrow> validateTodoText x w | _ \<Rightarrow> (Inr (), w))
                    = (Inr (), w)"
  proof (cases "u_text u")
    case (Value x)
    from validateTodoText_cases [of x w] show ?thesis
    proof
      assume "validateTodoText x w = (Inr (), w)"
      with Value show ?thesis by simp
    next
      assume "\<exists>m. validateTodoText x w
                 = (Inl (TodoError VALIDATION_FAILED m), w\<lparr>time_reads := Suc (time_reads w)\<rparr>)"
      then obtain m where "validateTodoText x w
                 = (Inl (TodoError VALIDATION_FAILED m), w\<lparr>time_reads := Suc (time_reads w)\<rparr>)"
        by blast
      from updateTodo_refused [OF Some Value this] assms show ?thesis by simp
    qed
  qed simp_all
  obtain c w1 where new: "Todo_new (spread_data todo u) w = (c, w1)"
    by (cases "Todo_new (spread_data todo u) w")
  show ?thesis
  proof (cases c)
    case (Inl e)
    with assms updateTodo_rejected [OF Some no_throw] new show ?thesis by simp
  next
    case (Inr t)
    note made = new [unfolded Inr]
    from assms updateTodo_constructed [OF Some no_throw made refl refl]
    have "t' = t" and "todos s' = map (\<lambda>x. if id' x = i then t else x) (todos s)"
      by (auto split: if_splits option.splits)
    with Todo_new_identity(1-3) [OF made] Some show ?thesis by simp
  qed
qed

lemma update_milk:
  "fst (updateTodo ''a'' (no_update\<lparr>u_priority := Value HIGH\<rparr>) sample_service sample_world) =
     Inr (milk\<lparr>id' := ''fresh-'', createdAt := Time 1000, updatedAt := Time 1001,
              priority := HIGH\<rparr>)"
  by (simp add: updateTodo_def sample_defs entity_defs service_defs enum_defs Let_def)

theorem updateTodo_mints_new_identity_witness:
  "\<exists>t'. fst (updateTodo ''a'' (no_update\<lparr>u_priority := Value HIGH\<rparr>) sample_service sample_world)
          = Inr t'
        \<and> findTodoById ''a'' sample_service = Some milk
        \<and> id' milk = ''a'' \<and> id' t' = ''fresh-''
        \<and> createdAt milk = Time 1 \<and> createdAt t' = Time 1000
        \<and> todos (fst (snd (updateTodo ''a'' (no_update\<lparr>u_priority := Value HIGH\<rparr>)
                               sample_service sample_world))) = [t', bank]"
proof -
  let ?call = "updateTodo ''a'' (no_update\<lparr>u_priority := Value HIGH\<rparr>) sample_service sample_world"
  let ?t = "milk\<lparr>id' := ''fresh-'', createdAt := Time 1000, updatedAt := Time 1001,
                 priority := HIGH\<rparr>"
  have "?call = (Inr ?t, fst (snd ?call), snd (snd ?call))"
    by (simp add: prod_eq_iff update_milk)
  from updateTodo_mints_new_identity [OF this] update_milk show ?thesis
    by (simp add: findTodoById_def sample_service_def milk_def bank_def)
qed

lemma map_Todo_new_identities:
  assumes "map_Todo_new js w = (Inr ts, w1)"
  shows "length ts = length js
       \<and> map id' ts = map (uuids w) [uuid_calls w ..< uuid_calls w + length js]
       \<and> time_reads w \<le> time_reads w1
       \<and> (\<forall>t \<in> set ts. \<exists>k \<ge> time_reads w.
             createdAt t = Time (times w k) \<and> updatedAt t = Time (times w (Suc k)))"
  using assms
proof (induction js arbitrary: w ts w1)
  case Nil
  then show ?case by auto
next
  case (Cons j js)
  obtain c wa where new: "Todo_new (as_ITodoData j) w = (c, wa)"
    by (cases "Todo_new (as_ITodoData j) w")
  show ?case
  proof (cases c)
    case (Inl e)
    with Cons.prems new show ?thesis by simp
  next
    case (Inr t)
    note made = new [unfolded Inr]
    note fr = Todo_new_frame [OF made]
    note idn = Todo_new_identity [OF made]
    obtain rs wb where rest: "map_Todo_new js wa = (rs, wb)"
      by (cases "map_Todo_new js wa")
    show ?thesis
    proof (cases rs)
      case (Inl e)
      with Cons.prems made rest show ?thesis by simp
    next
      case (Inr ts')
      with Cons.prems made rest have ts: "ts = t # ts'" and w1: "w1 = wb"
        by simp_all
      note ih = Cons.IH [OF rest [unfolded Inr]]
      have range: "[uuid_calls w ..< uuid_calls w + length (j # js)] =
                     uuid_calls w # [Suc (uuid_calls w) ..< Suc (uuid_calls w) + length js]"
        by (simp add: upt_conv_Cons del: upt_Suc)
      have "map id' ts' = map (uuids w) [Suc (uuid_calls w) ..< Suc (uuid_calls w) + length js]"
        using ih idn(4) fr(6) by (simp del: upt_Suc)
      then have ids: "map id' ts = map (uuids w) [uuid_calls w ..< uuid_calls w + length (j # js)]"
        unfolding range ts using idn(1) by (simp del: upt_Suc)
      have "\<exists>k \<ge> time_reads w. createdAt x = Time (times w k) \<and> updatedAt x = Time (times w (Suc k))"
        if "x \<in> set ts" for x
      proof (cases "x = t")
        case True
        with idn(2,3) show ?thesis
          by (intro exI [of _ "time_reads w + (case d_dueDate (as_ITodoData j) of None \<Rightarrow> 0 | Some x \<Rightarrow> 1)"]) simp
      next
        case False
        with that ts have "x \<in> set ts'" by simp
        with ih obtain k where "k \<ge> time_reads wa" "createdAt x = Time (times wa k)"
          "updatedAt x = Time (times wa (Suc k))" by blast
        with idn(5) fr(7) show ?thesis
          by (intro exI [of _ k]) simp
      qed
      with ids ih idn(5) show ?thesis by (simp add: ts w1)
    qed
  qed
qed

text \<open>
  C2, on the code. A successful \<open>importTodos\<close> appends to the collection the entities that
  the constructor makes of the entries (those that pass \<open>validateTodo\<close>) and returns their
  number. The constructor reads no \<open>id\<close>, \<open>createdAt\<close> or \<open>updatedAt\<close> of an entry: the
  ids of the made entities are the next ones drawn from the generator, and their
  timestamps are readings of the clock taken during the call.
\<close>

theorem importTodos_mints_new_identities:
  assumes "importTodos data s w = (Inr n, s', w')"
  shows "\<exists>v stamp entries imported w1.
           data = Json_object v stamp (Some entries)
           \<and> map_Todo_new entries w = (Inr imported, w1)
           \<and> todos s' = todos s @ filter (\<lambda>t. fst (validateTodo t w)) imported
           \<and> n = length (filter (\<lambda>t. fst (validateTodo t w)) imported)
           \<and> map id' imported = map (uuids w) [uuid_calls w ..< uuid_calls w + length entries]
           \<and> (\<forall>t \<in> set imported. \<exists>k \<ge> time_reads w.
                 createdAt t = Time (times w k) \<and> updatedAt t = Time (times w (Suc k)))"
proof (cases "\<exists>v stamp entries imported.
                 data = Json_object v stamp (Some entries)
                 \<and> fst (map_Todo_new entries w) = Inr imported")
  case False
  from importTodos_malformed [OF False, of s] assms show ?thesis by auto
next
  case True
  then obtain v stamp entries imported
    where shape: "data = Json_object v stamp (Some entries)"
      and made: "fst (map_Todo_new entries w) = Inr imported" by blast
  obtain w1 where m: "map_Todo_new entries w = (Inr imported, w1)"
    using made by (cases "map_Todo_new entries w") simp
  let ?valid = "filter (\<lambda>t. fst (validateTodo t w)) imported"
  have "n = length ?valid" and "todos s' = todos s @ ?valid"
    using assms
    unfolding shape importTodos_constructed(1) [OF m refl refl refl, where s = s and v = v
        and stamp = stamp]
    by (auto split: if_splits)
  with map_Todo_new_identities [OF m] shape m show ?thesis
    by simp
qed

lemma map_Todo_new_invalid:
  assumes "j \<in> set js" and "errors (fst (validateData (as_ITodoData j) w0)) \<noteq> []"
  shows "\<exists>e. fst (map_Todo_new js w) = Inl e"
  using assms(1)
proof (induction js arbitrary: w)
  case Nil
  then show ?case by simp
next
  case (Cons a js)
  show ?case
  proof (cases "errors (fst (validateData (as_ITodoData a) w)) = []")
    case False
    then show ?thesis by (simp add: Todo_new_invalid)
  next
    case True
    have "a \<noteq> j"
    proof
      assume "a = j"
      with True have "errors (fst (validateData (as_ITodoData j) w)) = []" by simp
      then have "errors (fst (validateData (as_ITodoData j) w0)) = []"
        by (simp only: validateData_errors)
      with assms(2) show False by simp
    qed
    with Cons.prems have "j \<in> set js" by simp
    from Cons.IH [OF this] obtain e
      where "fst (map_Todo_new js (snd (Todo_new (as_ITodoData a) w))) = Inl e" by blast
    then show ?thesis
      by (simp add: Todo_new_valid [OF True] case_prod_beta)
  qed
qed

text \<open>
  C3, on the code. When one entry of the items array fails the constructor's validation,
  the constructor throws inside the \<open>map\<close>, and \<open>importTodos\<close> rethrows it as
  \<open>INVALID_DATA\<close>: the import is aborted as a whole. No entry is imported, the service is
  as before, nothing is written and the change listener is not called.
\<close>

theorem importTodos_aborts_on_invalid_entry:
  assumes "j \<in> set entries" and "errors (fst (validateData (as_ITodoData j) w0)) \<noteq> []"
  shows "fst (importTodos (Json_object v stamp (Some entries)) s w)
           = Inl (TodoError INVALID_DATA ''Failed to parse import data'')
       \<and> fst (snd (importTodos (Json_object v stamp (Some entries)) s w)) = s
       \<and> localStorage (snd (snd (importTodos (Json_object v stamp (Some entries)) s w)))
           = localStorage w
       \<and> setItem_calls (snd (snd (importTodos (Json_object v stamp (Some entries)) s w)))
           = setItem_calls w
       \<and> listChanged_calls (snd (snd (importTodos (Json_object v stamp (Some entries)) s w)))
           = listChanged_calls w"
proof -
  from map_Todo_new_invalid [OF assms] obtain e where e: "fst (map_Todo_new entries w) = Inl e"
    by blast
  note fr = map_Todo_new_frame [OF prod.collapse [symmetric], of entries w]
  show ?thesis
    using e fr by (simp add: importTodos_def case_prod_beta throw_TodoError_eq)
qed

theorem importTodos_aborts_on_invalid_entry_witness:
  "fst (importTodos mixed_payload sample_service sample_world)
     = Inl (TodoError INVALID_DATA ''Failed to parse import data'')
   \<and> todos (fst (snd (importTodos mixed_payload sample_service sample_world))) = [milk, bank]
   \<and> setItem_calls (snd (snd (importTodos mixed_payload sample_service sample_world))) = 0
   \<and> errors (fst (validateData (as_ITodoData milk_json) sample_world)) = []
   \<and> errors (fst (validateData (as_ITodoData blank_json) sample_world))
       = [''Text is required and cannot be empty'']"
  using importTodos_aborts_on_invalid_entry [of blank_json "[milk_json, blank_json]" sample_world
      "Some CURRENT_VERSION" "Some (Time 900)" sample_service sample_world]
  by (simp add: mixed_payload_def validateData_errors as_ITodoData_def blank_json_def
      milk_json_def enum_defs trim_def isWhiteSpace_def sample_service_def sample_world_def)

lemma roundtrip:
  "fst (importTodos (fst exported) sample_service (snd exported)) = Inr 2"
  "todos (fst (snd (importTodos (fst exported) sample_service (snd exported)))) =
     [milk, bank,
      milk\<lparr>id' := ''fresh-'', createdAt := Time 1002, updatedAt := Time 1003\<rparr>,
      bank\<lparr>id' := ''fresh-i'', createdAt := Time 1005, updatedAt := Time 1006\<rparr>]"
  by (simp_all add: exported_def exportTodos_def importTodos_def validateTodo_def
      CURRENT_VERSION_def sample_defs entity_defs service_defs enum_defs Let_def case_prod_beta
      toLowerCase_def toLowerCase_char_def)

theorem importTodos_mints_new_identities_witness:
  "fst (importTodos (fst exported) sample_service (snd exported)) = Inr 2
   \<and> map id' (todos sample_service) = [''a'', ''b'']
   \<and> map id' (todos (fst (snd (importTodos (fst exported) sample_service (snd exported)))))
       = [''a'', ''b'', ''fresh-'', ''fresh-i'']
   \<and> map createdAt (todos sample_service) = [Time 1, Time 3]
   \<and> map createdAt (todos (fst (snd (importTodos (fst exported) sample_service (snd exported)))))
       = [Time 1, Time 3, Time 1002, Time 1005]"
proof -
  let ?call = "importTodos (fst exported) sample_service (snd exported)"
  have "?call = (Inr 2, fst (snd ?call), snd (snd ?call))"
    by (simp add: prod_eq_iff roundtrip)
  from importTodos_mints_new_identities [OF this] roundtrip show ?thesis
    by (simp add: sample_service_def milk_def bank_def)
qed

section \<open>The batch toggle\<close>

lemma dropWhile_keeps_trimmed_end:
  assumes "a = [] \<or> \<not> P (hd a)"
  shows "dropWhile P (rev (dropWhile P (rev a))) = rev (dropWhile P (rev a))"
proof -
  define b where "b = rev (dropWhile P (rev a))"
  define c where "c = rev (takeWhile P (rev a))"
  have "rev a = rev c @ rev b"
    unfolding b_def c_def by simp
  then have split: "a = b @ c"
    by (metis rev_append rev_rev_ident)
  have "dropWhile P b = b"
  proof (cases b)
    case Nil
    then show ?thesis by simp
  next
    case (Cons x xs)
    with split have "a = x # (xs @ c)" by simp
    with assms have "\<not> P x" by simp
    with Cons show ?thesis by simp
  qed
  then show ?thesis
    unfolding b_def .
qed

lemma dropWhile_rev_dropWhile:
  "dropWhile P (rev (dropWhile P (rev (dropWhile P s)))) = rev (dropWhile P (rev (dropWhile P s)))"
proof (rule dropWhile_keeps_trimmed_end)
  show "dropWhile P s = [] \<or> \<not> P (hd (dropWhile P s))"
    using hd_dropWhile [of P s] by blast
qed

lemma trim_idem: "trim (trim s) = trim s"
proof -
  let ?b = "rev (dropWhile isWhiteSpace (rev (dropWhile isWhiteSpace s)))"
  have "trim (trim s) = rev (dropWhile isWhiteSpace (rev (dropWhile isWhiteSpace ?b)))"
    by (simp add: trim_def)
  also have "dropWhile isWhiteSpace ?b = ?b"
    by (rule dropWhile_rev_dropWhile)
  also have "rev (dropWhile isWhiteSpace (rev ?b)) = ?b"
    by simp
  finally show ?thesis by (simp add: trim_def)
qed

lemma updateTodo_succeeds:
  assumes found: "findTodoById i s = Some todo"
    and no_text: "u_text u = Absent"
    and valid: "errors (fst (validateData (spread_data todo u) w)) = []"
    and writable: "\<not> setItem_throws w (setItem_calls w)"
    and listens: "onTodoListChanged s \<longrightarrow> \<not> listChanged_throws w (length (listChanged_calls w))"
    and observes: "onTodoOperation s \<longrightarrow> operation_throws w (length (operation_calls w)) = None"
  shows "\<exists>t' w'. updateTodo i u s w =
                   (Inr t', s\<lparr>todos := map (\<lambda>t. if id' t = i then t' else t) (todos s)\<rparr>, w')
           \<and> fst (Todo_new (spread_data todo u) w) = Inr t'
           \<and> setItem_calls w' = Suc (setItem_calls w)
           \<and> setItem_throws w' = setItem_throws w
           \<and> listChanged_throws w' = listChanged_throws w
           \<and> operation_throws w' = operation_throws w
           \<and> listChanged_calls w' =
               (if onTodoListChanged s
                then listChanged_calls w @ [map (\<lambda>t. if id' t = i then t' else t) (todos s)]
                else listChanged_calls w)
           \<and> operation_calls w' =
               (if onTodoOperation s then operation_calls w @ [(t', ''update'')]
                else operation_calls w)"
proof -
  obtain t' w1 where made: "Todo_new (spread_data todo u) w = (Inr t', w1)"
    using Todo_new_valid [OF valid] by blast
  note fr = Todo_new_frame [OF made]
  let ?s1 = "s\<lparr>todos := map (\<lambda>t. if id' t = i then t' else t) (todos s)\<rparr>"
  let ?wc = "snd (snd (commit (todos ?s1) ?s1 w1))"
  let ?w' = "snd (notifyOperation t' ''update'' ?s1 ?wc)"
  have nt: "(case u_text u of Value x \<Rightarrow> validateTodoText x w | _ \<Rightarrow> (Inr (), w)) = (Inr (), w)"
    by (simp add: no_text)
  have passes: "(setItem_throws w (setItem_calls w)
                  \<or> (onTodoListChanged s \<and> listChanged_throws w (length (listChanged_calls w))))
                = False"
    using writable listens by simp
  have "updateTodo i u s w = (Inr t', ?s1, ?w')"
    unfolding updateTodo_constructed [OF found nt made refl refl] passes
    using observes by simp
  moreover have "setItem_calls ?w' = Suc (setItem_calls w)" "setItem_throws ?w' = setItem_throws w"
    "listChanged_throws ?w' = listChanged_throws w" "operation_throws ?w' = operation_throws w"
    "listChanged_calls ?w' =
       (if onTodoListChanged s
        then listChanged_calls w @ [map (\<lambda>t. if id' t = i then t' else t) (todos s)]
        else listChanged_calls w)"
    "operation_calls ?w' =
       (if onTodoOperation s then operation_calls w @ [(t', ''update'')] else operation_calls w)"
    using writable fr by (simp_all add: notifyOperation_world commit_frame commit_effects)
  ultimately show ?thesis
    using made by (intro exI [of _ t'] exI [of _ ?w']) simp
qed

lemma toggled_item:
  assumes u: "u = no_update\<lparr>u_complete := Value flag,
                            u_status := Value (if flag then COMPLETED else PENDING)\<rparr>"
    and valid: "errors (fst (validateData (spread_data todo u) w)) = []"
    and made: "fst (Todo_new (spread_data todo u) w) = Inr t'"
  shows "complete t' = flag" "status t' = (if flag then COMPLETED else PENDING)"
    "errors (fst (validateData (spread_data t' u) w0)) = []"
proof -
  have t': "t' = projr (fst (Todo_new (spread_data todo u) w))"
    using made by simp
  have fields: "text' t' = trim (text' todo)" "priority t' = priority todo"
    "description t' = (case description todo of None \<Rightarrow> None
                       | Some d \<Rightarrow> if trim d = [] then None else Some (trim d))"
    and "complete t' = flag" "status t' = (if flag then COMPLETED else PENDING)"
    unfolding t' Todo_new_valid [OF valid]
    by (simp_all add: spread_data_def u no_update_def)
  then show "complete t' = flag" "status t' = (if flag then COMPLETED else PENDING)"
    by simp_all
  from valid show "errors (fst (validateData (spread_data t' u) w0)) = []"
    unfolding validateData_accepts_iff
    by (auto simp: spread_data_def u no_update_def fields trim_idem split: option.splits)
qed

lemma findTodoById_Some:
  assumes "t \<in> set (todos s)" and "id' t = i"
  shows "\<exists>todo. findTodoById i s = Some todo \<and> todo \<in> set (todos s) \<and> id' todo = i"
proof (cases "findTodoById i s")
  case None
  with assms show ?thesis by (auto simp: findTodoById_None)
next
  case (Some todo)
  then show ?thesis
    by (auto simp: findTodoById_def find_Some_iff)
qed

lemma updateMultipleTodos_toggle:
  assumes u: "u = no_update\<lparr>u_complete := Value flag,
                            u_status := Value (if flag then COMPLETED else PENDING)\<rparr>"
    and "distinct ids"
    and "\<forall>i \<in> set ids. \<exists>t \<in> set (todos s). id' t = i"
    and "\<forall>t \<in> set (todos s). errors (fst (validateData (spread_data t u) w0)) = []"
    and "\<forall>t \<in> set (todos s). id' t \<in> set ids
           \<or> (complete t = flag \<and> status t = (if flag then COMPLETED else PENDING))"
    and "\<forall>k. \<not> setItem_throws w (setItem_calls w + k)"
    and "onTodoListChanged s
           \<longrightarrow> (\<forall>k. \<not> listChanged_throws w (length (listChanged_calls w) + k))"
    and "onTodoOperation s
           \<longrightarrow> (\<forall>k. operation_throws w (length (operation_calls w) + k) = None)"
    and "updateMultipleTodos (map (\<lambda>i. (i, u)) ids) s w = (res, s', w')"
  shows "length res = length ids
       \<and> length (todos s') = length (todos s)
       \<and> (\<forall>t \<in> set res. complete t = flag \<and> status t = (if flag then COMPLETED else PENDING))
       \<and> (\<forall>t \<in> set (todos s'). complete t = flag
              \<and> status t = (if flag then COMPLETED else PENDING))
       \<and> setItem_calls w' = setItem_calls w + length ids
       \<and> length (listChanged_calls w') =
           length (listChanged_calls w) + (if onTodoListChanged s then length ids else 0)
       \<and> operation_calls w' =
           (if onTodoOperation s then operation_calls w @ map (\<lambda>t. (t, ''update'')) res
            else operation_calls w)"
  using assms(2-)
proof (induction ids arbitrary: s w res s' w')
  case Nil
  then show ?case by simp
next
  case (Cons i ids)
  from Cons.prems(2) obtain t0 where "t0 \<in> set (todos s)" "id' t0 = i" by auto
  from findTodoById_Some [OF this] obtain todo
    where found: "findTodoById i s = Some todo" and mem: "todo \<in> set (todos s)" by blast
  have valid: "errors (fst (validateData (spread_data todo u) w)) = []"
    using Cons.prems(3) mem validateData_errors [of "spread_data todo u" w]
      validateData_errors [of "spread_data todo u" w0] by simp
  have no_text: "u_text u = Absent"
    by (simp add: u no_update_def)
  have writable: "\<not> setItem_throws w (setItem_calls w)"
    using Cons.prems(5) [rule_format, of 0] by simp
  have listens: "onTodoListChanged s \<longrightarrow> \<not> listChanged_throws w (length (listChanged_calls w))"
    using Cons.prems(6) [rule_format, of 0] by simp
  have observes: "onTodoOperation s \<longrightarrow> operation_throws w (length (operation_calls w)) = None"
    using Cons.prems(7) [rule_format, of 0] by simp
  from updateTodo_succeeds [OF found no_text valid writable listens observes] obtain t' w1
    where step: "updateTodo i u s w =
                   (Inr t', s\<lparr>todos := map (\<lambda>t. if id' t = i then t' else t) (todos s)\<rparr>, w1)"
      and made: "fst (Todo_new (spread_data todo u) w) = Inr t'"
      and calls: "setItem_calls w1 = Suc (setItem_calls w)"
      and throws: "setItem_throws w1 = setItem_throws w"
        "listChanged_throws w1 = listChanged_throws w" "operation_throws w1 = operation_throws w"
      and heard: "listChanged_calls w1 =
               (if onTodoListChanged s
                then listChanged_calls w @ [map (\<lambda>t. if id' t = i then t' else t) (todos s)]
                else listChanged_calls w)"
      and seen: "operation_calls w1 =
               (if onTodoOperation s then operation_calls w @ [(t', ''update'')]
                else operation_calls w)"
    by blast
  note new = toggled_item [OF u valid made]
  let ?s1 = "s\<lparr>todos := map (\<lambda>t. if id' t = i then t' else t) (todos s)\<rparr>"
  obtain rs where rest: "updateMultipleTodos (map (\<lambda>i. (i, u)) ids) ?s1 w1 = (rs, s', w')"
    and res: "res = t' # rs"
    using Cons.prems(8) step by (auto simp: case_prod_beta prod_eq_iff)
  have 1: "distinct ids" and fresh: "i \<notin> set ids"
    using Cons.prems(1) by simp_all
  have 2: "\<forall>j \<in> set ids. \<exists>t \<in> set (todos ?s1). id' t = j"
  proof
    fix j assume j: "j \<in> set ids"
    with Cons.prems(2) obtain t where "t \<in> set (todos s)" "id' t = j" by auto
    moreover from j fresh have "j \<noteq> i" by auto
    ultimately show "\<exists>t \<in> set (todos ?s1). id' t = j"
      by (auto intro!: bexI [of _ t] simp: image_iff)
  qed
  have 3: "\<forall>t \<in> set (todos ?s1). errors (fst (validateData (spread_data t u) w0)) = []"
    using Cons.prems(3) new(3) [of w0] by auto
  have 4: "\<forall>t \<in> set (todos ?s1). id' t \<in> set ids
             \<or> (complete t = flag \<and> status t = (if flag then COMPLETED else PENDING))"
    using Cons.prems(4) new(1,2) by auto
  have 5: "\<forall>k. \<not> setItem_throws w1 (setItem_calls w1 + k)"
    using Cons.prems(5) [rule_format, of "Suc k" for k] by (simp add: calls throws)
  have 6: "onTodoListChanged ?s1
             \<longrightarrow> (\<forall>k. \<not> listChanged_throws w1 (length (listChanged_calls w1) + k))"
    using Cons.prems(6) [rule_format, of "Suc k" for k] by (simp add: heard throws)
  have 7: "onTodoOperation ?s1
             \<longrightarrow> (\<forall>k. operation_throws w1 (length (operation_calls w1) + k) = None)"
    using Cons.prems(7) [rule_format, of "Suc k" for k] by (simp add: seen throws)
  note ih = Cons.IH [OF 1 2 3 4 5 6 7 rest]
  show ?case
    using ih new(1,2) by (simp add: res calls heard seen)
qed

lemma toggleAll_as_updates:
  "toggleAll flag s w =
     updateMultipleTodos
       (map (\<lambda>i. (i, no_update\<lparr>u_complete := Value flag,
                                u_status := Value (if flag then COMPLETED else PENDING)\<rparr>))
            (map id' (todos s))) s w"
  by (simp add: toggleAll_def Let_def comp_def)

lemma valid_item_toggles:
  assumes "isValid (fst (validateData (spread_data t no_update) w))"
  shows "errors (fst (validateData
           (spread_data t (no_update\<lparr>u_complete := Value flag,
                                     u_status := Value (if flag then COMPLETED else PENDING)\<rparr>))
           w)) = []"
  using assms unfolding validateData_isValid validateData_accepts_iff
  by (simp add: spread_data_def no_update_def enum_defs)

text \<open>
  C5, as the code has it. \<open>toggleAll\<close> hands one update per item to
  \<open>updateMultipleTodos\<close>, which calls \<open>updateTodo\<close> for each in turn, and every
  \<open>updateTodo\<close> commits by itself. (What an \<open>updateTodo\<close> throws is caught by the loop
  and its item is left out of the result; so the conditions.) For a collection of n items
  with distinct ids, each of which the constructor accepts, while the storage takes the
  writes and the registered listeners return normally: every item ends with
  \<open>complete = flag\<close> and the status that goes with it, n updated items are returned, and
  there are n commits, n calls of \<open>setItem\<close> and n invocations of the registered change
  listener, not one; the registered operation listener is called with \<open>update\<close> for each
  returned item.
\<close>

theorem toggleAll_commits_per_item:
  assumes "distinct (map id' (todos s))"
    and "\<forall>t \<in> set (todos s). isValid (fst (validateData (spread_data t no_update) w))"
    and "\<forall>k. \<not> setItem_throws w (setItem_calls w + k)"
    and "onTodoListChanged s
           \<longrightarrow> (\<forall>k. \<not> listChanged_throws w (length (listChanged_calls w) + k))"
    and "onTodoOperation s
           \<longrightarrow> (\<forall>k. operation_throws w (length (operation_calls w) + k) = None)"
    and "toggleAll flag s w = (res, s', w')"
  shows "length res = length (todos s)
       \<and> length (todos s') = length (todos s)
       \<and> (\<forall>t \<in> set res. complete t = flag \<and> status t = (if flag then COMPLETED else PENDING))
       \<and> (\<forall>t \<in> set (todos s'). complete t = flag
              \<and> status t = (if flag then COMPLETED else PENDING))
       \<and> setItem_calls w' = setItem_calls w + length (todos s)
       \<and> length (listChanged_calls w') =
           length (listChanged_calls w) + (if onTodoListChanged s then length (todos s) else 0)
       \<and> operation_calls w' =
           (if onTodoOperation s then operation_calls w @ map (\<lambda>t. (t, ''update'')) res
            else operation_calls w)"
proof -
  let ?u = "no_update\<lparr>u_complete := Value flag,
                       u_status := Value (if flag then COMPLETED else PENDING)\<rparr>"
  have run: "updateMultipleTodos (map (\<lambda>i. (i, ?u)) (map id' (todos s))) s w = (res, s', w')"
    using assms(6) by (simp only: toggleAll_as_updates)
  have present: "\<forall>i \<in> set (map id' (todos s)). \<exists>t \<in> set (todos s). id' t = i"
    by auto
  have valid: "\<forall>t \<in> set (todos s). errors (fst (validateData (spread_data t ?u) w)) = []"
    using assms(2) valid_item_toggles by blast
  have pending: "\<forall>t \<in> set (todos s). id' t \<in> set (map id' (todos s))
                   \<or> (complete t = flag \<and> status t = (if flag then COMPLETED else PENDING))"
    by simp
  from updateMultipleTodos_toggle [OF refl assms(1) present valid pending assms(3,4,5) run]
  show ?thesis by simp
qed

lemma sample_service_fit:
  "distinct (map id' (todos sample_service))"
  "\<forall>t \<in> set (todos sample_service).
     isValid (fst (validateData (spread_data t no_update) sample_world))"
  "\<forall>k. \<not> setItem_throws sample_world (setItem_calls sample_world + k)"
  "onTodoListChanged sample_service
     \<longrightarrow> (\<forall>k. \<not> listChanged_throws sample_world (length (listChanged_calls sample_world) + k))"
  "onTodoOperation sample_service
     \<longrightarrow> (\<forall>k. operation_throws sample_world (length (operation_calls sample_world) + k) = None)"
  by (simp_all add: validateData_isValid validateData_accepts_iff spread_data_def no_update_def
      sample_defs enum_defs trim_def isWhiteSpace_def)

theorem toggleAll_commits_per_item_witness:
  "length (fst (toggleAll True sample_service sample_world)) = 2
   \<and> list_all (\<lambda>t. complete t \<and> status t = COMPLETED)
        (todos (fst (snd (toggleAll True sample_service sample_world))))
   \<and> setItem_calls (snd (snd (toggleAll True sample_service sample_world))) = 2
   \<and> length (listChanged_calls (snd (snd (toggleAll True sample_service sample_world)))) = 2
   \<and> length (operation_calls (snd (snd (toggleAll True sample_service sample_world)))) = 2"
  using toggleAll_commits_per_item [OF sample_service_fit triple_collapse, of True]
  by (simp add: list_all_iff sample_service_def sample_world_def)

theorem toggleAll_commits_twice_for_two_items:
  "length (todos sample_service) = 2
   \<and> setItem_calls sample_world = 0
   \<and> setItem_calls (snd (snd (toggleAll True sample_service sample_world))) = 2
   \<and> listChanged_calls sample_world = []
   \<and> onTodoListChanged sample_service
   \<and> length (listChanged_calls (snd (snd (toggleAll True sample_service sample_world)))) = 2"
proof -
  let ?u = "no_update\<lparr>u_complete := Value True,
                       u_status := Value (if True then COMPLETED else PENDING)\<rparr>"
  have run: "updateMultipleTodos (map (\<lambda>i. (i, ?u)) (map id' (todos sample_service)))
               sample_service sample_world =
             (fst (toggleAll True sample_service sample_world),
              fst (snd (toggleAll True sample_service sample_world)),
              snd (snd (toggleAll True sample_service sample_world)))"
    by (simp only: toggleAll_as_updates [symmetric] triple_collapse [symmetric])
  have valid: "\<forall>t \<in> set (todos sample_service).
                 errors (fst (validateData (spread_data t ?u) sample_world)) = []"
    using sample_service_fit(2) valid_item_toggles by blast
  have present: "\<forall>i \<in> set (map id' (todos sample_service)).
                   \<exists>t \<in> set (todos sample_service). id' t = i"
    by auto
  have pending: "\<forall>t \<in> set (todos sample_service). id' t \<in> set (map id' (todos sample_service))
                   \<or> (complete t = True \<and> status t = (if True then COMPLETED else PENDING))"
    by simp
  from updateMultipleTodos_toggle [OF refl sample_service_fit(1) present valid pending
      sample_service_fit(3,4,5) run]
  show ?thesis
    by (simp add: sample_service_def sample_world_def)
qed


end
